theory Spec2Isabelle
  imports Main
begin

section \<open>Python errors\<close>

text \<open>
  The exceptions the modelled code raises, itself or through the indexing of the
  array library. A result is \<open>error + 'a\<close>, with \<open>Inl\<close> for a raised exception.
  \<open>ValueError\<close> and \<open>RuntimeError\<close> carry their message.
\<close>

datatype error =
    IndexError
  | TypeError
  | AttributeError
  | KeyError
  | ValueError string
  | RuntimeError string

section \<open>bioptim/misc/mapping.py: Mapping\<close>

text \<open>
  \<open>map_idx\<close> is a sequence whose entries are integers or \<open>None\<close>.
\<close>

record Mapping =
  map_idx :: "int option list"

text \<open>
  The object \<open>Mapping.map\<close> receives: a 1-D array (or a flat list or tuple, which
  \<open>np.array\<close> turns into one), a 2-D array with its column count \<open>shape[1]\<close> and its
  rows (or a rectangular nested list), or anything that is neither a list, a tuple nor
  an array. The symbolic matrix types of the code go through the same indexing
  statements and are not modelled apart.
\<close>

datatype 'a obj = Vec "'a list" | Matrix nat "'a list list" | NotArray

text \<open>\<open>obj[idx, :]\<close> with a list of non-negative row indices.\<close>

definition take_rows :: "'a list list \<Rightarrow> nat list \<Rightarrow> error + 'a list list" where
  "take_rows rows idx =
     (if list_all (\<lambda>i. i < length rows) idx then Inr (map (\<lambda>i. rows ! i) idx)
      else Inl IndexError)"

text \<open>\<open>mapped_obj[idx, :] = vals\<close>; every index is a position of \<open>mapped_obj\<close>.\<close>

definition set_rows :: "'a list list \<Rightarrow> nat list \<Rightarrow> 'a list list \<Rightarrow> 'a list list" where
  "set_rows mapped idx vals = fold (\<lambda>(i, r) m. m[i := r]) (zip idx vals) mapped"

definition is_plus :: "int option \<Rightarrow> bool" where
  "is_plus v = (case v of None \<Rightarrow> False | Some n \<Rightarrow> n \<ge> 0)"

definition is_minus :: "int option \<Rightarrow> bool" where
  "is_minus v = (case v of None \<Rightarrow> False | Some n \<Rightarrow> n < 0)"

definition abs_idx :: "int option \<Rightarrow> nat" where
  "abs_idx v = (case v of None \<Rightarrow> 0 | Some n \<Rightarrow> nat \<bar>n\<bar>)"

definition Mapping_map :: "Mapping \<Rightarrow> ('a::{zero,uminus}) obj \<Rightarrow> error + 'a obj" where
  "Mapping_map self obj0 =
     (case (case obj0 of
              Vec xs \<Rightarrow> Inr (1, map (\<lambda>x. [x]) xs)
            | Matrix c rows \<Rightarrow> Inr (c, rows)
            | NotArray \<Rightarrow> Inl (RuntimeError ''map must be applied on np.ndarray, MX or SX''))
      of Inl e \<Rightarrow> Inl e
       | Inr (ncols, rows) \<Rightarrow>
         (let mapped_obj = replicate (length (map_idx self)) (replicate ncols 0);
              index_plus_in_origin = map abs_idx (filter is_plus (map_idx self));
              index_plus_in_new =
                map fst (filter (\<lambda>(i, v). is_plus v) (enumerate 0 (map_idx self)))
          in case take_rows rows index_plus_in_origin of
               Inl e \<Rightarrow> Inl e
             | Inr plus_rows \<Rightarrow>
               (let mapped_obj = set_rows mapped_obj index_plus_in_new plus_rows;
                    index_minus_in_origin = map abs_idx (filter is_minus (map_idx self));
                    index_minus_in_new =
                      map fst (filter (\<lambda>(i, v). is_minus v) (enumerate 0 (map_idx self)))
                in case take_rows rows index_minus_in_origin of
                     Inl e \<Rightarrow> Inl e
                   | Inr minus_rows \<Rightarrow>
                       Inr (Matrix ncols
                             (set_rows mapped_obj index_minus_in_new
                                (map (map uminus) minus_rows))))))"

text \<open>The row count \<open>shape[0]\<close> of the array \<open>Mapping.map\<close> indexes.\<close>

definition n_rows :: "'a obj \<Rightarrow> nat" where
  "n_rows x = (case x of Vec xs \<Rightarrow> length xs | Matrix c rows \<Rightarrow> length rows | NotArray \<Rightarrow> 0)"

definition Mapping_len :: "Mapping \<Rightarrow> nat" where
  "Mapping_len self = length (map_idx self)"

section \<open>bioptim/misc/mapping.py: BiMapping and BiMappingList\<close>

text \<open>
  An argument of type \<open>Union[Mapping, int, list, tuple, range]\<close>: a \<open>Mapping\<close>, a sequence
  of indices (list, tuple or range), or an integer.
\<close>

datatype map_arg = AMapping Mapping | ASeq "int option list" | AInt int

record BiMapping =
  to_second :: Mapping
  to_first :: Mapping

definition BiMapping_init :: "map_arg \<Rightarrow> map_arg \<Rightarrow> error + BiMapping" where
  "BiMapping_init to_second0 to_first0 =
     (let to_second1 = (case to_second0 of ASeq xs \<Rightarrow> AMapping \<lparr>map_idx = xs\<rparr> | a \<Rightarrow> a);
          to_first1 = (case to_first0 of ASeq xs \<Rightarrow> AMapping \<lparr>map_idx = xs\<rparr> | a \<Rightarrow> a)
      in case to_second1 of
           AMapping s \<Rightarrow>
             (case to_first1 of
                AMapping f \<Rightarrow> Inr \<lparr>to_second = s, to_first = f\<rparr>
              | _ \<Rightarrow> Inl (RuntimeError ''to_first must be a Mapping class''))
         | _ \<Rightarrow> Inl (RuntimeError ''to_second must be a Mapping class''))"

text \<open>
  \<open>BiMappingList\<close> keeps \<open>self.options\<close>, a list indexed by phase of tables from names
  to entries; \<open>__contains__\<close> looks a name up in the table of phase 0.
\<close>

record BiMappingList =
  options :: "(string \<rightharpoonup> BiMapping) list"

definition contains :: "BiMappingList \<Rightarrow> string \<Rightarrow> error + bool" where
  "contains self item =
     (case options self of [] \<Rightarrow> Inl IndexError | o0 # _ \<Rightarrow> Inr (o0 item \<noteq> None))"

text \<open>
  \<open>BiMappingList.add\<close>. The inherited \<open>OptionDict._add\<close> it ends in is defined outside
  the files at hand and is the parameter \<open>super_add\<close>, called with the key, the phase and
  the two mapping arguments on the current registry. The second equation is the branch
  of an explicit \<open>BiMapping\<close>, which calls \<open>add\<close> again with its two mappings.
\<close>

function add ::
  "(string \<Rightarrow> nat \<Rightarrow> map_arg \<Rightarrow> map_arg \<Rightarrow> BiMappingList \<Rightarrow> error + BiMappingList) \<Rightarrow>
   BiMappingList \<Rightarrow> string \<Rightarrow> map_arg option \<Rightarrow> map_arg option \<Rightarrow> BiMapping option \<Rightarrow> nat \<Rightarrow>
   error + BiMappingList" where
  "add super_add self name to_second0 to_first0 None phase =
     (case contains self name of
        Inl e \<Rightarrow> Inl e
      | Inr True \<Rightarrow> Inl (ValueError ''BiMapping name should be unique'')
      | Inr False \<Rightarrow>
          (case (to_second0, to_first0) of
             (Some s, Some f) \<Rightarrow> super_add name phase s f self
           | _ \<Rightarrow> Inl (ValueError
               ''BiMappingList should either be a to_second/to_first or an actual BiMapping'')))"
| "add super_add self name to_second0 to_first0 (Some bimapping) phase =
     (case contains self name of
        Inl e \<Rightarrow> Inl e
      | Inr True \<Rightarrow> Inl (ValueError ''BiMapping name should be unique'')
      | Inr False \<Rightarrow>
          (if to_second0 \<noteq> None \<or> to_first0 \<noteq> None
           then Inl (ValueError
               ''BiMappingList should either be a to_second/to_first or an actual BiMapping'')
           else add super_add self name (Some (AMapping (to_second bimapping)))
                  (Some (AMapping (to_first bimapping))) None phase))"
  by pat_completeness auto
termination
  by (relation "measure (\<lambda>(super_add, self, name, s, f, b, phase).
                  case b of None \<Rightarrow> 0 | Some x \<Rightarrow> Suc 0)") auto

text \<open>
  Modelled from the spec: \<open>OptionDict._add\<close> (bioptim/misc/options.py is not among the
  sources). It builds the entry with the option type, here \<open>BiMapping\<close>, and stores it
  under the key in the table of the phase, adding empty tables up to that phase.
\<close>

definition OptionDict_add ::
  "string \<Rightarrow> nat \<Rightarrow> map_arg \<Rightarrow> map_arg \<Rightarrow> BiMappingList \<Rightarrow> error + BiMappingList" where
  "OptionDict_add key phase to_second0 to_first0 self =
     (case BiMapping_init to_second0 to_first0 of
        Inl e \<Rightarrow> Inl e
      | Inr b \<Rightarrow>
          (let opts = options self @ replicate (Suc phase - length (options self)) Map.empty
           in Inr (self\<lparr>options := opts[phase := (opts ! phase)(key \<mapsto> b)]\<rparr>)))"

section \<open>bioptim/optimization/solution/utils.py\<close>

subsection \<open>Values and array operations\<close>

text \<open>
  The values the two functions handle. \<open>Arr xs\<close> is an array given by its items along
  the first axis: a 1-D array is \<open>Arr\<close> of scalars \<open>Num\<close>, a 2-D array is \<open>Arr\<close> of its
  rows, each a 1-D array. \<open>Num\<close> is a scalar of the array library (the item of a 1-D
  array), \<open>PyList\<close> a Python list and \<open>PyNone\<close> is \<open>None\<close>. An array whose first axis has
  length zero is \<open>Arr []\<close> and is read as 1-D: the lengths of its other axes are not
  represented.
\<close>

datatype 'a pyval = Num 'a | Arr "'a pyval list" | PyList "'a pyval list" | PyNone

fun ndim :: "'a pyval \<Rightarrow> nat" where
  "ndim (Arr []) = 1"
| "ndim (Arr (x # xs)) = Suc (ndim x)"
| "ndim _ = 0"

fun shape :: "'a pyval \<Rightarrow> nat list" where
  "shape (Arr []) = [0]"
| "shape (Arr (x # xs)) = Suc (length xs) # shape x"
| "shape _ = []"

text \<open>\<open>len(v.shape)\<close>: lists and \<open>None\<close> have no attribute \<open>shape\<close>.\<close>

definition len_shape :: "'a pyval \<Rightarrow> error + nat" where
  "len_shape v =
     (case v of Arr xs \<Rightarrow> Inr (ndim v) | Num x \<Rightarrow> Inr 0 | _ \<Rightarrow> Inl AttributeError)"

text \<open>\<open>v[0]\<close>.\<close>

definition getitem0 :: "'a pyval \<Rightarrow> error + 'a pyval" where
  "getitem0 v =
     (case v of
        Arr xs \<Rightarrow> (case xs of [] \<Rightarrow> Inl IndexError | x # _ \<Rightarrow> Inr x)
      | PyList xs \<Rightarrow> (case xs of [] \<Rightarrow> Inl IndexError | x # _ \<Rightarrow> Inr x)
      | Num x \<Rightarrow> Inl IndexError
      | PyNone \<Rightarrow> Inl TypeError)"

text \<open>\<open>isinstance(v, np.ndarray)\<close>.\<close>

definition is_ndarray :: "'a pyval \<Rightarrow> bool" where
  "is_ndarray v = (case v of Arr xs \<Rightarrow> True | _ \<Rightarrow> False)"

text \<open>The items a \<open>for\<close> loop over an array or a list goes through.\<close>

definition elems :: "'a pyval \<Rightarrow> 'a pyval list" where
  "elems v = (case v of Arr xs \<Rightarrow> xs | PyList xs \<Rightarrow> xs | _ \<Rightarrow> [])"

text \<open>\<open>y[:-1]\<close>.\<close>

definition drop_last :: "'a pyval \<Rightarrow> error + 'a pyval" where
  "drop_last y =
     (case y of
        Arr xs \<Rightarrow> Inr (Arr (butlast xs))
      | PyList xs \<Rightarrow> Inr (PyList (butlast xs))
      | Num x \<Rightarrow> Inl IndexError
      | PyNone \<Rightarrow> Inl TypeError)"

text \<open>\<open>y[:, :-1]\<close>: an array needs two axes for it.\<close>

definition drop_last_col :: "'a pyval \<Rightarrow> error + 'a pyval" where
  "drop_last_col y =
     (case y of
        Arr rows \<Rightarrow>
          (if ndim y < 2 then Inl IndexError
           else Inr (Arr (map (\<lambda>r. case r of Arr cs \<Rightarrow> Arr (butlast cs) | _ \<Rightarrow> r) rows)))
      | Num x \<Rightarrow> Inl IndexError
      | _ \<Rightarrow> Inl TypeError)"

text \<open>
  An array is rectangular: the items along each axis have one shape. A list given to
  \<open>np.hstack\<close> in the place of an array is converted to an array of its items;
  scalars and \<open>None\<close> become arrays of one item (\<open>np.atleast_1d\<close>).
\<close>

fun rect :: "'a pyval \<Rightarrow> bool" where
  "rect (Arr xs) = (list_all rect xs \<and> list_all (\<lambda>x. shape x = shape (hd xs)) xs)"
| "rect _ = True"

definition atleast_1d :: "'a pyval \<Rightarrow> 'a pyval" where
  "atleast_1d v = (case v of Arr xs \<Rightarrow> Arr xs | PyList xs \<Rightarrow> Arr xs | _ \<Rightarrow> Arr [v])"

text \<open>
  \<open>np.hstack\<close>: no array to join, arrays that are not rectangular, arrays of different
  numbers of axes, or of different lengths off the joined axis, are a \<open>ValueError\<close>.
  1-D arrays are joined end to end, all others along their second axis.
\<close>

definition hstack :: "'a pyval list \<Rightarrow> error + 'a pyval" where
  "hstack tup =
     (let arrs = map atleast_1d tup in
      if arrs = [] then Inl (ValueError ''need at least one array to concatenate'')
      else if \<not> list_all rect arrs then Inl (ValueError ''inhomogeneous shape'')
      else if ndim (hd arrs) = 1 then
        (if list_all (\<lambda>a. ndim a = 1) arrs then Inr (Arr (concat (map elems arrs)))
         else Inl (ValueError ''all the input arrays must have same number of dimensions''))
      else
        (if list_all (\<lambda>a. ndim a = ndim (hd arrs) \<and> hd (shape a) = hd (shape (hd arrs))
                          \<and> drop 2 (shape a) = drop 2 (shape (hd arrs))) arrs
         then Inr (Arr (map (\<lambda>i. Arr (concat (map (\<lambda>a. elems (elems a ! i)) arrs)))
                          [0 ..< hd (shape (hd arrs))]))
         else Inl (ValueError ''all the input array dimensions must match exactly'')))"

text \<open>Running a step over a sequence, stopping at the first exception.\<close>

fun map_err :: "('x \<Rightarrow> error + 'y) \<Rightarrow> 'x list \<Rightarrow> error + 'y list" where
  "map_err f [] = Inr []"
| "map_err f (x # xs) =
     (case f x of
        Inl e \<Rightarrow> Inl e
      | Inr y \<Rightarrow> (case map_err f xs of Inl e \<Rightarrow> Inl e | Inr ys \<Rightarrow> Inr (y # ys)))"

text \<open>The same for a step that may not return (\<open>None\<close>).\<close>

fun collect :: "('x \<Rightarrow> (error + 'y) option) \<Rightarrow> 'x list \<Rightarrow> (error + 'y list) option" where
  "collect f [] = Some (Inr [])"
| "collect f (x # xs) =
     (case f x of
        None \<Rightarrow> None
      | Some (Inl e) \<Rightarrow> Some (Inl e)
      | Some (Inr y) \<Rightarrow>
          (case collect f xs of
             None \<Rightarrow> None
           | Some (Inl e) \<Rightarrow> Some (Inl e)
           | Some (Inr ys) \<Rightarrow> Some (Inr (y # ys))))"

subsection \<open>concatenate_optimization_variables\<close>

text \<open>
  The loop of the last branch: the items of \<open>variable\<close> with, under \<open>continuous_phase\<close>,
  the last column (2-D item) or the last item (otherwise) of all but the final one
  dropped.
\<close>

definition final_tuple_of :: "'a pyval \<Rightarrow> bool \<Rightarrow> error + 'a pyval list" where
  "final_tuple_of variable continuous_phase =
     map_err (\<lambda>(i, y).
        if i < length (elems variable) - 1 \<and> continuous_phase
        then (case len_shape y of
                Inl e \<Rightarrow> Inl e
              | Inr k \<Rightarrow> if k = 2 then drop_last_col y else drop_last y)
        else Inr y) (enumerate 0 (elems variable))"

text \<open>
  The function calls itself on every item of \<open>variable\<close> and then on the list of the
  results. The first argument bounds the depth of these calls; the result is \<open>None\<close>
  when the bound is reached, \<open>Some (Inl e)\<close> for an exception and \<open>Some (Inr v)\<close> for a
  returned value (\<open>PyNone\<close> when the function ends without \<open>return\<close>). The inner calls
  pass one flag only, so their \<open>continuous_interval\<close> and \<open>merge_phases\<close> are the defaults.
\<close>

fun concatenate_optimization_variables ::
  "nat \<Rightarrow> 'a pyval \<Rightarrow> bool \<Rightarrow> bool \<Rightarrow> bool \<Rightarrow> (error + 'a pyval) option" where
  "concatenate_optimization_variables 0 variable continuous_phase continuous_interval merge_phases
     = None"
| "concatenate_optimization_variables (Suc fuel) variable continuous_phase continuous_interval
     merge_phases =
     (case getitem0 variable of
        Inl e \<Rightarrow> Some (Inl e)
      | Inr v0 \<Rightarrow>
     (case len_shape v0 of
        Inl e \<Rightarrow> Some (Inl e)
      | Inr n \<Rightarrow>
     if n = 0 then Some (Inr PyNone)
     else
     (case getitem0 v0 of
        Inl e \<Rightarrow> Some (Inl e)
      | Inr v00 \<Rightarrow>
     if is_ndarray v00 then
       (case collect (\<lambda>zi. concatenate_optimization_variables fuel zi continuous_interval
                              True True) (elems variable) of
          None \<Rightarrow> None
        | Some (Inl e) \<Rightarrow> Some (Inl e)
        | Some (Inr z_final) \<Rightarrow>
            if merge_phases
            then concatenate_optimization_variables fuel (PyList z_final) continuous_phase
                   True True
            else Some (Inr (PyList z_final)))
     else
       (case final_tuple_of variable continuous_phase of
          Inl e \<Rightarrow> Some (Inl e)
        | Inr final_tuple \<Rightarrow> Some (hstack final_tuple)))))"

subsection \<open>concatenate_optimization_variables_dict\<close>

text \<open>
  The argument is a list or something else; an item of the list is a dictionary, kept
  as its pairs in insertion order, or something else.
\<close>

datatype 'a item = Dict "(string \<times> 'a pyval) list" | NotDict "'a pyval"

datatype 'a dict_arg = ArgList "'a item list" | ArgOther

datatype 'a dict_ret = RetNone | RetList "(string \<times> 'a pyval) list list"

text \<open>\<open>v_i[key]\<close> with a string key.\<close>

definition getitem_key :: "'a item \<Rightarrow> string \<Rightarrow> error + 'a pyval" where
  "getitem_key v_i key =
     (case v_i of
        Dict d \<Rightarrow> (case map_of d key of None \<Rightarrow> Inl KeyError | Some y \<Rightarrow> Inr y)
      | NotDict v \<Rightarrow> (case v of Arr xs \<Rightarrow> Inl IndexError | Num x \<Rightarrow> Inl IndexError
                                | _ \<Rightarrow> Inl TypeError))"

text \<open>\<open>variable_dict[key] = value\<close>.\<close>

fun dict_set :: "string \<Rightarrow> 'v \<Rightarrow> (string \<times> 'v) list \<Rightarrow> (string \<times> 'v) list" where
  "dict_set k v [] = [(k, v)]"
| "dict_set k v ((k', v') # d) = (if k = k' then (k, v) # d else (k', v') # dict_set k v d)"

text \<open>The body of the loop over the keys: the merged array of one key.\<close>

definition merge_key :: "'a item list \<Rightarrow> bool \<Rightarrow> string \<Rightarrow> error + 'a pyval" where
  "merge_key variable continuous key =
     (case map_err (\<lambda>v_i. getitem_key v_i key) variable of
        Inl e \<Rightarrow> Inl e
      | Inr ys \<Rightarrow>
          (case map_err (\<lambda>(i, y). if i < length ys - 1 \<and> continuous then drop_last_col y
                                   else Inr y) (enumerate 0 ys) of
             Inl e \<Rightarrow> Inl e
           | Inr final_tuple \<Rightarrow> hstack final_tuple))"

fun dict_loop ::
  "'a item list \<Rightarrow> bool \<Rightarrow> string list \<Rightarrow> (string \<times> 'a pyval) list \<Rightarrow>
   error + (string \<times> 'a pyval) list" where
  "dict_loop variable continuous [] variable_dict = Inr variable_dict"
| "dict_loop variable continuous (key # keys) variable_dict =
     (case merge_key variable continuous key of
        Inl e \<Rightarrow> Inl e
      | Inr merged \<Rightarrow> dict_loop variable continuous keys (dict_set key merged variable_dict))"

definition concatenate_optimization_variables_dict ::
  "'a dict_arg \<Rightarrow> bool \<Rightarrow> error + 'a dict_ret" where
  "concatenate_optimization_variables_dict variable continuous =
     (case variable of
        ArgOther \<Rightarrow> Inl (ValueError ''the input must be a list'')
      | ArgList vs \<Rightarrow>
          (case vs of
             [] \<Rightarrow> Inl IndexError
           | v0 # _ \<Rightarrow>
               (case v0 of
                  NotDict x \<Rightarrow> Inr RetNone
                | Dict d0 \<Rightarrow>
                    (case dict_loop vs continuous (map fst d0) [] of
                       Inl e \<Rightarrow> Inl e
                     | Inr variable_dict \<Rightarrow> Inr (RetList [variable_dict])))))"

subsection \<open>Blocks\<close>

text \<open>
  A 1-D array of numbers and a 2-D array given by its rows, as values of the model.
\<close>

definition vec_of :: "'a list \<Rightarrow> 'a pyval" where
  "vec_of xs = Arr (map Num xs)"

definition block_of :: "'a list list \<Rightarrow> 'a pyval" where
  "block_of M = Arr (map vec_of M)"

text \<open>A matrix with \<open>r\<close> rows, \<open>r\<close> positive, all of one length.\<close>

definition is_matrix :: "nat \<Rightarrow> 'a list list \<Rightarrow> bool" where
  "is_matrix r M = (length M = r \<and> 0 < r \<and> list_all (\<lambda>row. length row = length (hd M)) M)"

text \<open>
  The merge as the specification words it, on matrices: when \<open>continuous\<close>, the last
  column of every block except the final one is dropped; the blocks are then joined
  along the time axis, row by row.
\<close>

definition drop_cols :: "bool \<Rightarrow> 'a list list list \<Rightarrow> 'a list list list" where
  "drop_cols continuous Ms = (if continuous then map (map butlast) (butlast Ms) @ [last Ms] else Ms)"

definition hcat :: "'a list list list \<Rightarrow> 'a list list" where
  "hcat Ms = map (\<lambda>i. concat (map (\<lambda>M. M ! i) Ms)) [0 ..< length (hd Ms)]"

definition merge_columns :: "bool \<Rightarrow> 'a list list list \<Rightarrow> 'a list list" where
  "merge_columns continuous Ms = hcat (drop_cols continuous Ms)"

text \<open>
  Joining 1-D pieces end to end; when \<open>continuous\<close>, every piece except the final one
  first loses its last item.
\<close>

definition join_1d :: "bool \<Rightarrow> 'a list list \<Rightarrow> 'a list" where
  "join_1d continuous xss =
     (if continuous then concat (map butlast (butlast xss)) @ last xss else concat xss)"

section \<open>bioptim/dynamics/problem.py\<close>

subsection \<open>The phase and the symbolic engine\<close>

text \<open>
  Modelled from the spec: the values of the enumeration \<open>ControlType\<close>
  (bioptim/misc/enums.py is not among the sources): \<open>CONSTANT\<close> is 1 and
  \<open>LINEAR_CONTINUOUS\<close> is 2.
\<close>

datatype ControlType = CONSTANT | LINEAR_CONTINUOUS

definition ControlType_value :: "ControlType \<Rightarrow> nat" where
  "ControlType_value t = (case t of CONSTANT \<Rightarrow> 1 | LINEAR_CONTINUOUS \<Rightarrow> 2)"

text \<open>
  What the functions read of the model of the body: its three counts and the names of
  its degrees of freedom.
\<close>

record biorbd_model =
  nbQ :: nat
  nbQdot :: nat
  nbGeneralizedTorque :: nat
  nameDof :: "string list"

text \<open>
  A symbolic expression of the engine, kept as its text and its shape; \<open>MX_sym\<close> is the
  constructor of a named symbol. A compiled function keeps its name, its inputs and
  outputs and their names.
\<close>

datatype mx = MX string nat nat

definition MX_sym :: "string \<Rightarrow> nat \<Rightarrow> nat \<Rightarrow> mx" where
  "MX_sym name r c = MX name r c"

fun size1 :: "mx \<Rightarrow> nat" where
  "size1 (MX s r c) = r"

fun size2 :: "mx \<Rightarrow> nat" where
  "size2 (MX s r c) = c"

record casadi_function =
  f_name :: string
  f_in :: "mx list"
  f_out :: "mx list"
  name_in :: "string list"
  name_out :: "string list"

text \<open>
  Modelled from the spec: the engine's vertical concatenation and compilation (the
  symbolic engine is an external collaborator). \<open>vertcat\<close> stacks expressions of one
  column count, leaving empty ones out, and refuses others; \<open>Function\<close> records the
  signature it is given and \<open>expand\<close> keeps it. Neither is told a width to expect of
  the output.
\<close>

definition vertcat :: "mx list \<Rightarrow> error + mx" where
  "vertcat xs =
     (let ys = filter (\<lambda>x. \<not> (size1 x = 0 \<and> size2 x = 0)) xs in
      if ys = [] then Inr (MX ''vertcat()'' 0 0)
      else if list_all (\<lambda>y. size2 y = size2 (hd ys)) ys
      then Inr (MX ''vertcat(...)'' (sum_list (map size1 ys)) (size2 (hd ys)))
      else Inl (RuntimeError ''Dimension mismatch''))"

definition Function ::
  "string \<Rightarrow> mx list \<Rightarrow> mx list \<Rightarrow> string list \<Rightarrow> string list \<Rightarrow> casadi_function" where
  "Function name ins outs names_in names_out =
     \<lparr>f_name = name, f_in = ins, f_out = outs, name_in = names_in, name_out = names_out\<rparr>"

definition expand :: "casadi_function \<Rightarrow> casadi_function" where
  "expand f = f"

text \<open>
  The phase \<open>nlp\<close>: the table of mappings (a name bound to \<open>None\<close> in Python is absent
  here), the model, the control type, the table \<open>nlp.shape\<close>, the total widths of its
  registries of states, controls and parameters, and the compiled dynamics. Of the
  program \<open>ocp\<close> only the width of its parameter list is read.
\<close>

record nlp =
  mapping :: "string \<rightharpoonup> BiMapping"
  model :: biorbd_model
  control_type :: ControlType
  nlp_shape :: "string \<rightharpoonup> nat"
  states_n :: nat
  controls_n :: nat
  parameters_n :: nat
  dynamics_func :: "casadi_function option"

record ocp =
  parameters_in_list_n :: nat

subsection \<open>Configuration of the quantities\<close>

text \<open>\<open>xs[i]\<close> with an index that may be negative, or \<open>None\<close>.\<close>

definition py_index :: "'a list \<Rightarrow> int option \<Rightarrow> error + 'a" where
  "py_index xs i =
     (case i of
        None \<Rightarrow> Inl TypeError
      | Some k \<Rightarrow>
          (let n = int (length xs); j = (if k < 0 then n + k else k)
           in if 0 \<le> j \<and> j < n then Inr (xs ! nat j) else Inl IndexError))"

text \<open>\<open>BiMapping(range(n), range(n))\<close>.\<close>

definition identity_bimapping :: "nat \<Rightarrow> BiMapping" where
  "identity_bimapping n =
     \<lparr>to_second = \<lparr>map_idx = map (\<lambda>i. Some (int i)) [0 ..< n]\<rparr>,
      to_first = \<lparr>map_idx = map (\<lambda>i. Some (int i)) [0 ..< n]\<rparr>\<rparr>"

text \<open>
  The loop \<open>for i in to_first.map_idx\<close>, which adds one symbol named after
  \<open>dof_names[i]\<close> per entry, and the loop \<open>for i, _ in enumerate(to_second.map_idx)\<close>,
  which adds one symbol named after \<open>dof_names[i]\<close> per position. A column of
  symbols is the list of their names.
\<close>

definition reduced_symbols :: "string \<Rightarrow> string \<Rightarrow> string list \<Rightarrow> Mapping \<Rightarrow> error + string list" where
  "reduced_symbols prefix suffix dof_names m =
     map_err (\<lambda>i. case py_index dof_names i of
                     Inl e \<Rightarrow> Inl e
                   | Inr name \<Rightarrow> Inr (prefix @ name @ suffix)) (map_idx m)"

definition full_symbols :: "string \<Rightarrow> string list \<Rightarrow> Mapping \<Rightarrow> error + string list" where
  "full_symbols prefix dof_names m =
     map_err (\<lambda>(i, v). case py_index dof_names (Some (int i)) of
                          Inl e \<Rightarrow> Inl e
                        | Inr name \<Rightarrow> Inr (prefix @ name)) (enumerate 0 (map_idx m))"

text \<open>
  What a configuration function has built when it reaches the registration: the phase
  with its mapping filled in, the reduced placeholder (one column per value of the
  control type for forces, one column otherwise), the full placeholder and the legend.
  The registration of the placeholders under the roles asked for (\<open>as_states\<close>,
  \<open>as_controls\<close>) and the plot descriptors go to registries defined outside the files
  at hand: they are not part of the model and the two flags are not parameters.
\<close>

record configured =
  cfg_nlp :: nlp
  reduced :: "string list list"
  full :: "string list"
  legend :: "string list"

definition configure_q :: "nlp \<Rightarrow> error + configured" where
  "configure_q nlp0 =
     (let nlp1 = (if mapping nlp0 ''q'' = None
                  then nlp0\<lparr>mapping := (mapping nlp0)(''q'' \<mapsto> identity_bimapping (nbQ (model nlp0)))\<rparr>
                  else nlp0);
          dof_names = nameDof (model nlp1);
          m = the (mapping nlp1 ''q'')
      in case reduced_symbols ''Q_'' [] dof_names (to_first m) of
           Inl e \<Rightarrow> Inl e
         | Inr q \<Rightarrow>
        (case full_symbols ''Q_'' dof_names (to_second m) of
           Inl e \<Rightarrow> Inl e
         | Inr q_mx \<Rightarrow>
        (case reduced_symbols ''q_'' [] dof_names (to_first m) of
           Inl e \<Rightarrow> Inl e
         | Inr legend_q \<Rightarrow>
             Inr \<lparr>cfg_nlp = nlp1, reduced = [q], full = q_mx, legend = legend_q\<rparr>)))"

definition configure_qdot :: "nlp \<Rightarrow> error + configured" where
  "configure_qdot nlp0 =
     (let nlp1 = (if mapping nlp0 ''qdot'' = None
                  then nlp0\<lparr>mapping := (mapping nlp0)(''qdot'' \<mapsto>
                                          identity_bimapping (nbQdot (model nlp0)))\<rparr>
                  else nlp0);
          dof_names = nameDof (model nlp1);
          m = the (mapping nlp1 ''qdot'')
      in case reduced_symbols ''Qdot_'' [] dof_names (to_first m) of
           Inl e \<Rightarrow> Inl e
         | Inr qdot \<Rightarrow>
        (case full_symbols ''Qdot_'' dof_names (to_second m) of
           Inl e \<Rightarrow> Inl e
         | Inr qdot_mx \<Rightarrow>
        (case reduced_symbols ''qdot_'' [] dof_names (to_first m) of
           Inl e \<Rightarrow> Inl e
         | Inr legend_qdot \<Rightarrow>
             Inr \<lparr>cfg_nlp = nlp1, reduced = [qdot], full = qdot_mx, legend = legend_qdot\<rparr>)))"

text \<open>
  The columns \<open>all_tau[j]\<close>, one per \<open>j\<close> below the value of the control type; the symbol
  of entry \<open>i\<close> in column \<open>j\<close> is named after \<open>dof_names[i]\<close> and \<open>j\<close>. With no column the
  inner loop runs over nothing and \<open>dof_names\<close> is not read.
\<close>

definition digit :: "nat \<Rightarrow> string" where
  "digit j = (if j = 0 then ''0'' else if j = 1 then ''1'' else ''2'')"

definition column_symbols ::
  "string \<Rightarrow> string list \<Rightarrow> Mapping \<Rightarrow> nat \<Rightarrow> error + string list list" where
  "column_symbols prefix dof_names m n_col =
     (if n_col = 0 then Inr []
      else case map_err (py_index dof_names) (map_idx m) of
             Inl e \<Rightarrow> Inl e
           | Inr names \<Rightarrow>
               Inr (map (\<lambda>j. map (\<lambda>name. prefix @ name @ ''_'' @ digit j) names) [0 ..< n_col]))"

definition configure_tau :: "nlp \<Rightarrow> error + configured" where
  "configure_tau nlp0 =
     (let nlp1 = (if mapping nlp0 ''tau'' = None
                  then nlp0\<lparr>mapping := (mapping nlp0)(''tau'' \<mapsto>
                                  identity_bimapping (nbGeneralizedTorque (model nlp0)))\<rparr>
                  else nlp0);
          dof_names = nameDof (model nlp1);
          n_col = ControlType_value (control_type nlp1);
          m = the (mapping nlp1 ''tau'')
      in case column_symbols ''Tau_'' dof_names (to_first m) n_col of
           Inl e \<Rightarrow> Inl e
         | Inr all_tau \<Rightarrow>
        (case full_symbols ''Tau_'' dof_names (to_second m) of
           Inl e \<Rightarrow> Inl e
         | Inr tau_mx \<Rightarrow>
        (case reduced_symbols ''tau_'' [] dof_names (to_first m) of
           Inl e \<Rightarrow> Inl e
         | Inr legend_tau \<Rightarrow>
             Inr \<lparr>cfg_nlp = nlp1, reduced = all_tau, full = tau_mx, legend = legend_tau\<rparr>)))"

text \<open>
  \<open>configure_taudot\<close> runs its second loop over \<open>nlp.mapping["q"].to_second.map_idx\<close>;
  with no mapping for \<open>"q"\<close> the attribute access fails. It also sets
  \<open>nlp.shape["taudot"]\<close>.
\<close>

definition configure_taudot :: "nlp \<Rightarrow> error + configured" where
  "configure_taudot nlp0 =
     (let nlp1 = (if mapping nlp0 ''taudot'' = None
                  then nlp0\<lparr>mapping := (mapping nlp0)(''taudot'' \<mapsto>
                                  identity_bimapping (nbGeneralizedTorque (model nlp0)))\<rparr>
                  else nlp0);
          dof_names = nameDof (model nlp1);
          n_col = ControlType_value (control_type nlp1);
          m = the (mapping nlp1 ''taudot'')
      in case column_symbols ''Taudot_'' dof_names (to_first m) n_col of
           Inl e \<Rightarrow> Inl e
         | Inr all_taudot \<Rightarrow>
        (case mapping nlp1 ''q'' of
           None \<Rightarrow> Inl AttributeError
         | Some mq \<Rightarrow>
        (case full_symbols ''Taudot_'' dof_names (to_second mq) of
           Inl e \<Rightarrow> Inl e
         | Inr taudot_mx \<Rightarrow>
        (let nlp2 = nlp1\<lparr>nlp_shape := (nlp_shape nlp1)(''taudot'' \<mapsto> length (map_idx (to_first m)))\<rparr>
         in case reduced_symbols ''taudot_'' [] dof_names (to_first m) of
              Inl e \<Rightarrow> Inl e
            | Inr legend_taudot \<Rightarrow>
                Inr \<lparr>cfg_nlp = nlp2, reduced = all_taudot, full = taudot_mx,
                     legend = legend_taudot\<rparr>))))"

subsection \<open>configure_dynamics_function\<close>

text \<open>
  What a derivative function returns: one expression, or a list or tuple of
  expressions. It is called with the three fresh symbols and the phase, and may raise.
\<close>

datatype dyn_result = Expr mx | Seq "mx list"

definition configure_dynamics_function ::
  "ocp \<Rightarrow> nlp \<Rightarrow> (mx \<Rightarrow> mx \<Rightarrow> mx \<Rightarrow> nlp \<Rightarrow> error + dyn_result) \<Rightarrow> error + nlp" where
  "configure_dynamics_function ocp0 nlp0 dyn_func =
     (let mx_symbolic_states = MX_sym ''x'' (states_n nlp0) 1;
          mx_symbolic_controls = MX_sym ''u'' (controls_n nlp0) 1;
          nlp1 = nlp0\<lparr>parameters_n := parameters_in_list_n ocp0\<rparr>;
          mx_symbolic_params = MX_sym ''p'' (parameters_n nlp1) 1
      in case dyn_func mx_symbolic_states mx_symbolic_controls mx_symbolic_params nlp1 of
           Inl e \<Rightarrow> Inl e
         | Inr dynamics0 \<Rightarrow>
        (case (case dynamics0 of Seq ds \<Rightarrow> vertcat ds | Expr d \<Rightarrow> Inr d) of
           Inl e \<Rightarrow> Inl e
         | Inr dynamics \<Rightarrow>
             Inr (nlp1\<lparr>dynamics_func := Some (expand (Function ''ForwardDyn''
                    [mx_symbolic_states, mx_symbolic_controls, mx_symbolic_params]
                    [dynamics] [''x'', ''u'', ''p''] [''xdot'']))\<rparr>)))"

text \<open>A derivative function that returns one expression of three rows, whatever it is given.\<close>

definition dyn_three_rows :: "mx \<Rightarrow> mx \<Rightarrow> mx \<Rightarrow> nlp \<Rightarrow> error + dyn_result" where
  "dyn_three_rows x u p n = Inr (Expr (MX ''f(x, u, p)'' 3 1))"

text \<open>
  A phase of three degrees of freedom in which the mapping of \<open>"q"\<close> has three entries
  each way and the mapping of \<open>"taudot"\<close> two, and a program without parameters.
\<close>

definition example_nlp :: nlp where
  "example_nlp =
     \<lparr>mapping = [''q'' \<mapsto> identity_bimapping 3, ''taudot'' \<mapsto> identity_bimapping 2],
      model = \<lparr>nbQ = 3, nbQdot = 3, nbGeneralizedTorque = 3,
               nameDof = [''TransX'', ''TransY'', ''RotZ'']\<rparr>,
      control_type = CONSTANT,
      nlp_shape = Map.empty,
      states_n = 2, controls_n = 1, parameters_n = 0,
      dynamics_func = None\<rparr>"

definition example_ocp :: ocp where
  "example_ocp = \<lparr>parameters_in_list_n = 0\<rparr>"

section \<open>Properties of Mapping.map\<close>

lemma length_set_rows: "length (set_rows m idx vals) = length m"
proof -
  have "length (fold (\<lambda>(i, r) m. m[i := r]) ps m) = length m" for ps :: "(nat \<times> 'a list) list"
    by (induction ps arbitrary: m) (auto split: prod.splits)
  then show ?thesis by (simp add: set_rows_def)
qed

lemma fold_update_nth:
  "distinct (map fst ps) \<Longrightarrow> j < length m \<Longrightarrow>
   fold (\<lambda>(i, r) m. m[i := r]) ps m ! j =
     (case map_of ps j of None \<Rightarrow> m ! j | Some r \<Rightarrow> r)"
proof (induction ps arbitrary: m)
  case Nil
  then show ?case by simp
next
  case (Cons p ps)
  obtain i r where p: "p = (i, r)" by (cases p)
  from Cons.prems have d: "distinct (map fst ps)" and ni: "i \<notin> fst ` set ps"
    by (auto simp: p)
  have "fold (\<lambda>(i, r) m. m[i := r]) (p # ps) m ! j =
        fold (\<lambda>(i, r) m. m[i := r]) ps (m[i := r]) ! j"
    by (simp add: p)
  also have "\<dots> = (case map_of ps j of None \<Rightarrow> m[i := r] ! j | Some r \<Rightarrow> r)"
    using Cons.IH [OF d, of "m[i := r]"] Cons.prems(2) by simp
  also have "\<dots> = (case map_of (p # ps) j of None \<Rightarrow> m ! j | Some r \<Rightarrow> r)"
  proof (cases "j = i")
    case True
    with ni have "map_of ps j = None" by (simp add: map_of_eq_None_iff)
    with True Cons.prems(2) show ?thesis by (simp add: p)
  next
    case False
    then show ?thesis by (simp add: p split: option.splits)
  qed
  finally show ?case .
qed

lemma sel_positions:
  "map_of (zip (map fst (filter (\<lambda>(i, v). P v) (enumerate n xs))) (map f (filter P xs))) j =
     (if n \<le> j \<and> j < n + length xs \<and> P (xs ! (j - n)) then Some (f (xs ! (j - n))) else None)"
proof (induction xs arbitrary: n)
  case Nil
  then show ?case by simp
next
  case (Cons x xs)
  show ?case
  proof (cases "j = n")
    case True
    then show ?thesis using Cons.IH [of "Suc n"] by (auto)
  next
    case False
    then show ?thesis using Cons.IH [of "Suc n"] by (auto simp: nth_Cons' Suc_diff_le)
  qed
qed

lemma distinct_positions:
  "distinct (map fst (filter Q (enumerate n xs)))"
  by (rule distinct_map_filter) (simp)

lemma take_rows_ok:
  "(\<And>i. i \<in> set idx \<Longrightarrow> i < length rows) \<Longrightarrow> take_rows rows idx = Inr (map (\<lambda>i. rows ! i) idx)"
  by (simp add: take_rows_def list_all_iff)

lemma take_rows_fail:
  "i \<in> set idx \<Longrightarrow> \<not> i < length rows \<Longrightarrow> take_rows rows idx = Inl IndexError"
  by (auto simp: take_rows_def list_all_iff)

lemma length_positions:
  "length (filter (\<lambda>(i, v). P v) (enumerate n xs)) = length (filter P xs)"
  by (induction xs arbitrary: n) auto

lemma select_rows_nth:
  assumes "j < length xs" and "length m0 = length xs"
  shows "set_rows m0 (map fst (filter (\<lambda>(i, v). P v) (enumerate 0 xs))) (map f (filter P xs)) ! j
         = (if P (xs ! j) then f (xs ! j) else m0 ! j)"
proof -
  let ?new = "map fst (filter (\<lambda>(i, v). P v) (enumerate 0 xs))"
  let ?vals = "map f (filter P xs)"
  have len: "length ?new = length ?vals"
    by (simp add: length_positions)
  have "set_rows m0 ?new ?vals ! j
      = (case map_of (zip ?new ?vals) j of None \<Rightarrow> m0 ! j | Some r \<Rightarrow> r)"
    unfolding set_rows_def
  proof (rule fold_update_nth)
    show "distinct (map fst (zip ?new ?vals))"
      using len distinct_positions [of "\<lambda>(i, v). P v" 0 xs] by (simp only: map_fst_zip)
    show "j < length m0" using assms by simp
  qed
  then show ?thesis using assms by (simp add: sel_positions)
qed

lemma Mapping_map_Matrix:
  fixes rows :: "('a::{zero,uminus}) list list"
  assumes enough: "\<forall>v. Some v \<in> set (map_idx m) \<longrightarrow> nat \<bar>v\<bar> < length rows"
  shows "Mapping_map m (Matrix c rows) =
           Inr (Matrix c (map (\<lambda>e. case e of
                                  None \<Rightarrow> replicate c 0
                                | Some v \<Rightarrow> if v < 0 then map uminus (rows ! nat \<bar>v\<bar>)
                                            else rows ! nat \<bar>v\<bar>) (map_idx m)))"
proof -
  let ?xs = "map_idx m"
  let ?m0 = "replicate (length ?xs) (replicate c (0::'a))"
  let ?pn = "map fst (filter (\<lambda>(i, v). is_plus v) (enumerate 0 ?xs))"
  let ?mn = "map fst (filter (\<lambda>(i, v). is_minus v) (enumerate 0 ?xs))"
  let ?fp = "\<lambda>v. rows ! abs_idx v"
  let ?fm = "\<lambda>v. map uminus (rows ! abs_idx v)"
  have inb: "abs_idx v < length rows" if "v \<in> set ?xs" "v \<noteq> None" for v
    using that enough by (cases v) (auto simp: abs_idx_def)
  have tp: "take_rows rows (map abs_idx (filter is_plus ?xs)) = Inr (map ?fp (filter is_plus ?xs))"
    using inb by (subst take_rows_ok) (auto simp: is_plus_def split: option.splits)
  have tm: "take_rows rows (map abs_idx (filter is_minus ?xs)) = Inr (map (\<lambda>v. rows ! abs_idx v) (filter is_minus ?xs))"
    using inb by (subst take_rows_ok) (auto simp: is_minus_def split: option.splits)
  let ?m1 = "set_rows ?m0 ?pn (map ?fp (filter is_plus ?xs))"
  let ?m2 = "set_rows ?m1 ?mn (map ?fm (filter is_minus ?xs))"
  have res: "Mapping_map m (Matrix c rows) = Inr (Matrix c ?m2)"
    by (simp add: Mapping_map_def tp tm Let_def comp_def)
  have "?m2 = map (\<lambda>e. case e of None \<Rightarrow> replicate c 0
                                | Some v \<Rightarrow> if v < 0 then map uminus (rows ! nat \<bar>v\<bar>)
                                            else rows ! nat \<bar>v\<bar>) ?xs"
  proof (rule nth_equalityI)
    show "length ?m2 = length (map (\<lambda>e. case e of None \<Rightarrow> replicate c 0
                                | Some v \<Rightarrow> if v < 0 then map uminus (rows ! nat \<bar>v\<bar>)
                                            else rows ! nat \<bar>v\<bar>) ?xs)"
      by (simp add: length_set_rows)
  next
    fix j assume "j < length ?m2"
    then have j: "j < length ?xs" by (simp add: length_set_rows)
    have l1: "length ?m1 = length ?xs" by (simp add: length_set_rows)
    have "?m2 ! j = (if is_minus (?xs ! j) then ?fm (?xs ! j) else ?m1 ! j)"
      by (rule select_rows_nth [OF j l1])
    also have "?m1 ! j = (if is_plus (?xs ! j) then ?fp (?xs ! j) else ?m0 ! j)"
      by (rule select_rows_nth [OF j]) simp
    finally have eq: "?m2 ! j = (if is_minus (?xs ! j) then ?fm (?xs ! j)
                       else if is_plus (?xs ! j) then ?fp (?xs ! j) else ?m0 ! j)" .
    have "(if is_minus (?xs ! j) then ?fm (?xs ! j)
           else if is_plus (?xs ! j) then ?fp (?xs ! j) else ?m0 ! j)
        = (case ?xs ! j of None \<Rightarrow> replicate c 0
           | Some v \<Rightarrow> if v < 0 then map uminus (rows ! nat \<bar>v\<bar>) else rows ! nat \<bar>v\<bar>)"
      using j by (cases "?xs ! j") (simp_all add: is_minus_def is_plus_def abs_idx_def)
    with eq show "?m2 ! j = map (\<lambda>e. case e of None \<Rightarrow> replicate c 0
                                | Some v \<Rightarrow> if v < 0 then map uminus (rows ! nat \<bar>v\<bar>)
                                            else rows ! nat \<bar>v\<bar>) ?xs ! j"
      using j by (simp only: nth_map)
  qed
  with res show ?thesis by simp
qed


lemma Mapping_map_Vec:
  "Mapping_map m (Vec xs) = Mapping_map m (Matrix 1 (map (\<lambda>x. [x]) xs))"
  by (simp add: Mapping_map_def)

text \<open>
  Claim C1. When every non-sentinel entry \<open>v\<close> of \<open>map_idx\<close> has \<open>|v|\<close> below the
  number of rows of \<open>x\<close>, \<open>Mapping.map\<close> returns one row per entry: the row of a
  sentinel entry is zero, the row of an entry \<open>v\<close> is \<open>x[|v|]\<close>, negated when \<open>v < 0\<close>
  (an entry \<open>0\<close> copies row 0 as it is). A second input that has the same referenced
  rows gives the same result, and a 1-D input is mapped as the matrix of its one column.
\<close>

theorem Mapping_map_rows:
  fixes rows :: "('a::{zero,uminus}) list list"
  assumes "\<forall>v. Some v \<in> set (map_idx m) \<longrightarrow> nat \<bar>v\<bar> < length rows"
  shows "Mapping_map m (Matrix c rows) =
           Inr (Matrix c (map (\<lambda>e. case e of
                                  None \<Rightarrow> replicate c 0
                                | Some v \<Rightarrow> if v < 0 then map uminus (rows ! nat \<bar>v\<bar>)
                                            else rows ! nat \<bar>v\<bar>) (map_idx m)))
       \<and> ((\<forall>v. Some v \<in> set (map_idx m) \<longrightarrow>
               nat \<bar>v\<bar> < length rows' \<and> rows' ! nat \<bar>v\<bar> = rows ! nat \<bar>v\<bar>)
            \<longrightarrow> Mapping_map m (Matrix c rows') = Mapping_map m (Matrix c rows))
       \<and> Mapping_map m (Vec xs) = Mapping_map m (Matrix 1 (map (\<lambda>x. [x]) xs))"
proof (intro conjI impI)
  show "Mapping_map m (Vec xs) = Mapping_map m (Matrix 1 (map (\<lambda>x. [x]) xs))"
    by (rule Mapping_map_Vec)
next
  show "Mapping_map m (Matrix c rows) =
           Inr (Matrix c (map (\<lambda>e. case e of
                                  None \<Rightarrow> replicate c 0
                                | Some v \<Rightarrow> if v < 0 then map uminus (rows ! nat \<bar>v\<bar>)
                                            else rows ! nat \<bar>v\<bar>) (map_idx m)))"
    by (rule Mapping_map_Matrix [OF assms])
next
  assume same: "\<forall>v. Some v \<in> set (map_idx m) \<longrightarrow>
               nat \<bar>v\<bar> < length rows' \<and> rows' ! nat \<bar>v\<bar> = rows ! nat \<bar>v\<bar>"
  then have enough': "\<forall>v. Some v \<in> set (map_idx m) \<longrightarrow> nat \<bar>v\<bar> < length rows'"
    by blast
  have "map (\<lambda>e. case e of None \<Rightarrow> replicate c (0::'a)
                | Some v \<Rightarrow> if v < 0 then map uminus (rows' ! nat \<bar>v\<bar>) else rows' ! nat \<bar>v\<bar>)
            (map_idx m)
      = map (\<lambda>e. case e of None \<Rightarrow> replicate c 0
                | Some v \<Rightarrow> if v < 0 then map uminus (rows ! nat \<bar>v\<bar>) else rows ! nat \<bar>v\<bar>)
            (map_idx m)"
    using same by (intro map_cong refl) (auto split: option.splits)
  then show "Mapping_map m (Matrix c rows') = Mapping_map m (Matrix c rows)"
    by (simp add: Mapping_map_Matrix [OF assms] Mapping_map_Matrix [OF enough'])
qed

theorem Mapping_map_rows_witness:
  "Mapping_map \<lparr>map_idx = [Some 0, Some 1, Some 1, Some 3, None, Some 1]\<rparr>
     (Matrix 1 [[1], [2], [3], [4], [5], [6::int]])
   = Inr (Matrix 1 [[1], [2], [2], [4], [0], [2]])
   \<and> Mapping_map \<lparr>map_idx = [Some 0, Some 1, Some 1, Some 3, None, Some 1]\<rparr>
     (Matrix 1 [[1], [2], [7], [4], [8], [9::int]])
   = Mapping_map \<lparr>map_idx = [Some 0, Some 1, Some 1, Some 3, None, Some 1]\<rparr>
     (Matrix 1 [[1], [2], [3], [4], [5], [6::int]])"
proof -
  let ?m = "\<lparr>map_idx = [Some 0, Some 1, Some 1, Some 3, None, Some 1]\<rparr>"
  let ?rows = "[[1], [2], [3], [4], [5], [6::int]]"
  let ?rows' = "[[1], [2], [7], [4], [8], [9::int]]"
  have enough: "\<forall>v. Some v \<in> set (map_idx ?m) \<longrightarrow> nat \<bar>v\<bar> < length ?rows"
    by simp
  have same: "\<forall>v. Some v \<in> set (map_idx ?m) \<longrightarrow>
               nat \<bar>v\<bar> < length ?rows' \<and> ?rows' ! nat \<bar>v\<bar> = ?rows ! nat \<bar>v\<bar>"
    by simp
  note r = Mapping_map_rows [OF enough, where c = 1 and rows' = ?rows' and xs = "[]"]
  from r [THEN conjunct1]
  have "Mapping_map ?m (Matrix 1 ?rows) = Inr (Matrix 1 [[1], [2], [2], [4], [0], [2]])"
    by simp
  moreover from r [THEN conjunct2, THEN conjunct1] same
  have "Mapping_map ?m (Matrix 1 ?rows') = Mapping_map ?m (Matrix 1 ?rows)"
    by (rule mp)
  ultimately show ?thesis by (rule conjI)
qed

text \<open>
  Claim C7. When some entry \<open>v\<close> of \<open>map_idx\<close> has \<open>|v|\<close> at or beyond the number of
  rows of the input array, \<open>Mapping.map\<close> raises \<open>IndexError\<close>.
\<close>

theorem Mapping_map_index_error:
  fixes x :: "('a::{zero,uminus}) obj"
  assumes "x \<noteq> NotArray" and "Some v \<in> set (map_idx m)" and "n_rows x \<le> nat \<bar>v\<bar>"
  shows "Mapping_map m x = Inl IndexError"
proof -
  have gen: "Mapping_map m (Matrix c rows) = Inl IndexError"
    if le: "length rows \<le> nat \<bar>v\<bar>" for c and rows :: "'a list list"
  proof (cases "v \<ge> 0")
    case True
    have "abs_idx (Some v) \<in> set (map abs_idx (filter is_plus (map_idx m)))"
      using assms(2) True by (auto simp: is_plus_def intro!: imageI)
    moreover have "\<not> abs_idx (Some v) < length rows"
      using le by (simp add: abs_idx_def)
    ultimately have "take_rows rows (map abs_idx (filter is_plus (map_idx m))) = Inl IndexError"
      by (rule take_rows_fail)
    then show ?thesis by (simp add: Mapping_map_def)
  next
    case False
    have "abs_idx (Some v) \<in> set (map abs_idx (filter is_minus (map_idx m)))"
      using assms(2) False by (auto simp: is_minus_def intro!: imageI)
    moreover have "\<not> abs_idx (Some v) < length rows"
      using le by (simp add: abs_idx_def)
    ultimately have "take_rows rows (map abs_idx (filter is_minus (map_idx m))) = Inl IndexError"
      by (rule take_rows_fail)
    moreover have "take_rows rows (map abs_idx (filter is_plus (map_idx m))) = Inl IndexError
        \<or> (\<exists>r. take_rows rows (map abs_idx (filter is_plus (map_idx m))) = Inr r)"
      by (auto simp: take_rows_def)
    ultimately show ?thesis by (auto simp: Mapping_map_def Let_def)
  qed
  show ?thesis
  proof (cases x)
    case (Vec xs)
    then show ?thesis using gen [of "map (\<lambda>x. [x]) xs" 1] assms(3)
      by (simp add: Mapping_map_Vec n_rows_def)
  next
    case (Matrix c rows)
    then show ?thesis using gen [of rows c] assms(3) by (simp add: n_rows_def)
  next
    case NotArray
    with assms(1) show ?thesis by simp
  qed
qed

theorem Mapping_map_index_error_witness:
  "Mapping_map \<lparr>map_idx = [Some (-2), Some 3]\<rparr> (Vec [1, 2, 3::int]) = Inl IndexError"
  using Mapping_map_index_error [where x = "Vec [1, 2, 3::int]" and v = 3
      and m = "\<lparr>map_idx = [Some (-2), Some 3]\<rparr>"]
  by (simp add: n_rows_def)

section \<open>Properties of BiMappingList.add\<close>

lemma contains_cases:
  "options self \<noteq> [] \<Longrightarrow> contains self name = Inr True \<or> contains self name = Inr False"
  by (cases "options self") (auto simp: contains_def)








text \<open>
  Claim C8. On a registry with its table of phase 0, \<open>add\<close> raises a \<open>ValueError\<close> when an
  explicit \<open>BiMapping\<close> comes with a \<open>to_second\<close> or a \<open>to_first\<close>, and when there is no
  \<open>BiMapping\<close> and one of \<open>to_second\<close>, \<open>to_first\<close> is \<open>None\<close>. When \<open>add\<close> returns, the entry
  was stored from exactly one form: the two mappings of the \<open>BiMapping\<close>, the other two
  arguments being \<open>None\<close>, or the two given arguments, without a \<open>BiMapping\<close>.
\<close>

theorem add_construction_forms:
  assumes "options self \<noteq> []"
  shows "(bm \<noteq> None \<and> (ts \<noteq> None \<or> tf \<noteq> None) \<longrightarrow>
            (\<exists>msg. add super_add self name ts tf bm phase = Inl (ValueError msg)))
       \<and> (bm = None \<and> (ts = None \<or> tf = None) \<longrightarrow>
            (\<exists>msg. add super_add self name ts tf bm phase = Inl (ValueError msg)))
       \<and> (\<forall>self'. add super_add self name ts tf bm phase = Inr self' \<longrightarrow>
            (\<exists>b. bm = Some b \<and> ts = None \<and> tf = None
                \<and> super_add name phase (AMapping (to_second b)) (AMapping (to_first b)) self = Inr self')
          \<or> (\<exists>s f. bm = None \<and> ts = Some s \<and> tf = Some f
                \<and> super_add name phase s f self = Inr self'))"
proof -
  from assms have c: "contains self name = Inr True \<or> contains self name = Inr False"
    by (rule contains_cases)
  show ?thesis
  proof (cases bm)
    case None
    with c show ?thesis by (cases ts; cases tf) auto
  next
    case (Some b)
    with c show ?thesis by (cases ts; cases tf) auto
  qed
qed

theorem add_construction_forms_witness:
  "(\<exists>msg. add OptionDict_add \<lparr>options = [Map.empty]\<rparr> ''q'' (Some (ASeq [Some 0])) None
             (Some \<lparr>to_second = \<lparr>map_idx = [Some 0]\<rparr>, to_first = \<lparr>map_idx = [Some 0]\<rparr>\<rparr>) 0
           = Inl (ValueError msg))
   \<and> (\<exists>msg. add OptionDict_add \<lparr>options = [Map.empty]\<rparr> ''q'' (Some (ASeq [Some 0])) None None 0
           = Inl (ValueError msg))
   \<and> add OptionDict_add \<lparr>options = [Map.empty]\<rparr> ''q'' None None
         (Some \<lparr>to_second = \<lparr>map_idx = [Some 0]\<rparr>, to_first = \<lparr>map_idx = [Some 0]\<rparr>\<rparr>) 0
       = Inr \<lparr>options = [[''q'' \<mapsto>
                \<lparr>to_second = \<lparr>map_idx = [Some 0]\<rparr>, to_first = \<lparr>map_idx = [Some 0]\<rparr>\<rparr>]]\<rparr>
   \<and> OptionDict_add ''q'' 0 (AMapping \<lparr>map_idx = [Some 0]\<rparr>) (AMapping \<lparr>map_idx = [Some 0]\<rparr>)
         \<lparr>options = [Map.empty]\<rparr>
       = Inr \<lparr>options = [[''q'' \<mapsto>
                \<lparr>to_second = \<lparr>map_idx = [Some 0]\<rparr>, to_first = \<lparr>map_idx = [Some 0]\<rparr>\<rparr>]]\<rparr>"
proof -
  let ?s = "\<lparr>options = [Map.empty]\<rparr>"
  let ?b = "\<lparr>to_second = \<lparr>map_idx = [Some 0]\<rparr>, to_first = \<lparr>map_idx = [Some 0]\<rparr>\<rparr>"
  have ok: "add OptionDict_add ?s ''q'' None None (Some ?b) 0 = Inr \<lparr>options = [[''q'' \<mapsto> ?b]]\<rparr>"
    by (simp add: contains_def OptionDict_add_def BiMapping_init_def)
  have ne: "options ?s \<noteq> []" by simp
  note a = add_construction_forms [OF ne, where name = "''q''" and super_add = OptionDict_add
      and ts = "Some (ASeq [Some 0])" and tf = None and bm = "Some ?b" and phase = 0]
  note b = add_construction_forms [OF ne, where name = "''q''" and super_add = OptionDict_add
      and ts = "Some (ASeq [Some 0])" and tf = None and bm = None and phase = 0]
  note c = add_construction_forms [OF ne, where name = "''q''" and super_add = OptionDict_add
      and ts = None and tf = None and bm = "Some ?b" and phase = 0]
  from c ok have "OptionDict_add ''q'' 0 (AMapping \<lparr>map_idx = [Some 0]\<rparr>)
      (AMapping \<lparr>map_idx = [Some 0]\<rparr>) ?s = Inr \<lparr>options = [[''q'' \<mapsto> ?b]]\<rparr>"
    by simp
  with a b ok show ?thesis by simp
qed

section \<open>Properties of concatenate_optimization_variables_dict\<close>

lemma map_err_ok:
  "(\<And>x. x \<in> set xs \<Longrightarrow> f x = Inr (g x)) \<Longrightarrow> map_err f xs = Inr (map g xs)"
  by (induction xs) simp_all

lemma slices_false: "map_err (\<lambda>(i, y). Inr y) (enumerate k ys) = Inr ys"
  by (induction ys arbitrary: k) simp_all

lemma slices_true:
  assumes "\<And>y. y \<in> set ys \<Longrightarrow> g y = Inr (g' y)" and "ys \<noteq> []"
  shows "map_err (\<lambda>(i, y). if i < k + length ys - 1 then g y else Inr y) (enumerate k ys)
         = Inr (map g' (butlast ys) @ [last ys])"
  using assms
proof (induction ys arbitrary: k)
  case Nil
  then show ?case by simp
next
  case (Cons y ys)
  show ?case
  proof (cases "ys = []")
    case True
    then show ?thesis by simp
  next
    case False
    have "map_err (\<lambda>(i, y). if i < Suc k + length ys - 1 then g y else Inr y) (enumerate (Suc k) ys)
         = Inr (map g' (butlast ys) @ [last ys])"
      using Cons.IH [of "Suc k"] Cons.prems False by simp
    then show ?thesis using False Cons.prems(1) [of y] by simp
  qed
qed

lemma slices:
  assumes "\<And>y. y \<in> set ys \<Longrightarrow> g y = Inr (g' y)" and "ys \<noteq> []"
  shows "map_err (\<lambda>(i, y). if i < length ys - 1 \<and> c then g y else Inr y) (enumerate 0 ys)
         = Inr (if c then map g' (butlast ys) @ [last ys] else ys)"
proof (cases c)
  case True
  then show ?thesis using slices_true [OF assms, where k = 0] by simp
next
  case False
  then show ?thesis by (simp add: slices_false)
qed

lemma ndim_vec_of [simp]: "ndim (vec_of xs) = 1"
  by (cases xs) (simp_all add: vec_of_def)

lemma shape_vec_of [simp]: "shape (vec_of xs) = [length xs]"
  by (cases xs) (simp_all add: vec_of_def)

lemma rect_vec_of [simp]: "rect (vec_of xs)"
  by (cases xs) (simp_all add: vec_of_def list_all_iff)

lemma elems_vec_of [simp]: "elems (vec_of xs) = map Num xs"
  by (simp add: vec_of_def elems_def)

lemma elems_block_of [simp]: "elems (block_of M) = map vec_of M"
  by (simp add: block_of_def elems_def)

lemma ndim_block_of: "M \<noteq> [] \<Longrightarrow> ndim (block_of M) = 2"
  by (cases M) (simp_all add: block_of_def)

lemma shape_block_of: "M \<noteq> [] \<Longrightarrow> shape (block_of M) = [length M, length (hd M)]"
  by (cases M) (simp_all add: block_of_def)

lemma rect_block_of: "is_matrix r M \<Longrightarrow> rect (block_of M)"
proof -
  assume m: "is_matrix r M"
  then have ne: "M \<noteq> []" and len: "\<And>row. row \<in> set M \<Longrightarrow> length row = length (hd M)"
    by (auto simp: is_matrix_def list_all_iff)
  have "hd (map vec_of M) = vec_of (hd M)" using ne by (simp add: hd_map)
  then have "list_all (\<lambda>x. shape x = shape (hd (map vec_of M))) (map vec_of M)"
    using len by (simp add: list_all_iff)
  moreover have "list_all rect (map vec_of M)" by (simp add: list_all_iff)
  ultimately show ?thesis unfolding block_of_def rect.simps by (rule conjI [rotated])
qed

lemma drop_last_col_block:
  "M \<noteq> [] \<Longrightarrow> drop_last_col (block_of M) = Inr (block_of (map butlast M))"
proof -
  assume ne: "M \<noteq> []"
  have "map (\<lambda>r. case r of Arr cs \<Rightarrow> Arr (butlast cs) | _ \<Rightarrow> r) (map vec_of M) = map vec_of (map butlast M)"
    by (simp add: vec_of_def map_butlast)
  moreover have "\<not> ndim (Arr (map vec_of M)) < 2"
    using ndim_block_of [OF ne] by (simp add: block_of_def)
  ultimately show ?thesis
    by (simp add: drop_last_col_def block_of_def)
qed

lemma is_matrix_butlast: "is_matrix r M \<Longrightarrow> is_matrix r (map butlast M)"
  by (cases M) (auto simp: is_matrix_def list_all_iff)

lemma atleast_1d_block [simp]: "atleast_1d (block_of M) = block_of M"
  by (simp add: atleast_1d_def block_of_def)


lemma hstack_blocks:
  assumes "Ms \<noteq> []" and "\<And>M. M \<in> set Ms \<Longrightarrow> is_matrix r M"
  shows "hstack (map block_of Ms) = Inr (block_of (hcat Ms))"
proof -
  from assms obtain M0 Ms' where Ms: "Ms = M0 # Ms'" by (cases Ms) auto
  have m0: "is_matrix r M0" using assms(2) Ms by simp
  then have M0: "M0 \<noteq> []" "length M0 = r" by (auto simp: is_matrix_def)
  have ne: "M \<noteq> []" "length M = r" if "M \<in> set Ms" for M
    using assms(2) [OF that] by (auto simp: is_matrix_def)
  have arrs: "map atleast_1d (map block_of Ms) = map block_of Ms" by simp
  have r: "list_all rect (map block_of Ms)"
    using assms(2) by (auto simp: list_all_iff intro: rect_block_of)
  have hdn: "ndim (hd (map block_of Ms)) = 2" "hd (shape (hd (map block_of Ms))) = r"
    using M0 by (simp_all add: Ms ndim_block_of shape_block_of)
  have chk: "list_all (\<lambda>a. ndim a = ndim (hd (map block_of Ms)) \<and> hd (shape a) = hd (shape (hd (map block_of Ms)))
                          \<and> drop 2 (shape a) = drop 2 (shape (hd (map block_of Ms)))) (map block_of Ms)"
    unfolding hdn using ne M0 by (auto simp: list_all_iff ndim_block_of shape_block_of Ms)
  have h1: "hstack (map block_of Ms) =
     Inr (Arr (map (\<lambda>i. Arr (concat (map (\<lambda>a. elems (elems a ! i)) (map block_of Ms)))) [0 ..< r]))"
    unfolding hstack_def arrs Let_def using r chk hdn Ms by simp
  have h2: "map (\<lambda>i. Arr (concat (map (\<lambda>a. elems (elems a ! i)) (map block_of Ms)))) [0 ..< r]
      = map vec_of (hcat Ms)"
  proof -
    have "Arr (concat (map (\<lambda>a. elems (elems a ! i)) (map block_of Ms))) = vec_of (concat (map (\<lambda>M. M ! i) Ms))"
      if "i < r" for i
    proof -
      have "map (\<lambda>a. elems (elems a ! i)) (map block_of Ms) = map (\<lambda>M. map Num (M ! i)) Ms"
        unfolding map_map comp_def using that ne by (intro map_cong refl) simp
      then have "Arr (concat (map (\<lambda>a. elems (elems a ! i)) (map block_of Ms)))
          = Arr (concat (map (\<lambda>M. map Num (M ! i)) Ms))"
        by (simp only:)
      moreover have "Arr (concat (map (\<lambda>M. map Num (M ! i)) Ms)) = vec_of (concat (map (\<lambda>M. M ! i) Ms))"
        by (simp add: vec_of_def map_concat comp_def)
      ultimately show ?thesis by (rule trans)
    qed
    then show ?thesis using M0 by (simp add: hcat_def Ms)
  qed
  have h3: "Arr (map vec_of (hcat Ms)) = block_of (hcat Ms)"
    by (simp add: block_of_def)
  show ?thesis unfolding h1 h2 h3 ..
qed

lemma is_matrix_drop_cols:
  assumes "Ms \<noteq> []" and "\<And>M. M \<in> set Ms \<Longrightarrow> is_matrix r M"
  shows "M \<in> set (drop_cols c Ms) \<Longrightarrow> is_matrix r M"
  using assms
  by (auto simp: drop_cols_def is_matrix_butlast dest: in_set_butlastD split: if_splits)

lemma final_tuple_blocks:
  assumes "Ms \<noteq> []" and "\<And>M. M \<in> set Ms \<Longrightarrow> is_matrix r M"
  shows "map_err (\<lambda>(i, y). if i < length (map block_of Ms) - 1 \<and> c then drop_last_col y else Inr y)
           (enumerate 0 (map block_of Ms)) = Inr (map block_of (drop_cols c Ms))"
proof -
  let ?g' = "\<lambda>y. case drop_last_col y of Inr z \<Rightarrow> z"
  have M_ne: "M \<noteq> []" if "M \<in> set Ms" for M
    using assms(2) [OF that] by (auto simp: is_matrix_def)
  have g: "drop_last_col y = Inr (?g' y)" if "y \<in> set (map block_of Ms)" for y
  proof -
    from that obtain M where M: "M \<in> set Ms" "y = block_of M" by auto
    then show ?thesis using drop_last_col_block [OF M_ne] by simp
  qed
  have ne: "map block_of Ms \<noteq> []" using assms(1) by simp
  have "map ?g' (map block_of (butlast Ms)) = map block_of (map (map butlast) (butlast Ms))"
    unfolding map_map comp_def
  proof (rule map_cong [OF refl])
    fix M assume "M \<in> set (butlast Ms)"
    then have "M \<in> set Ms" by (rule in_set_butlastD)
    then show "(case drop_last_col (block_of M) of Inr z \<Rightarrow> z) = block_of (map butlast M)"
      using drop_last_col_block [OF M_ne] by simp
  qed
  then have "map ?g' (butlast (map block_of Ms)) = map block_of (map (map butlast) (butlast Ms))"
    by (simp only: map_butlast)
  moreover have "last (map block_of Ms) = block_of (last Ms)"
    using assms(1) by (simp add: last_map)
  ultimately show ?thesis
    using slices [of "map block_of Ms" drop_last_col ?g' c, OF g ne]
    by (simp add: drop_cols_def)
qed

lemma merge_key_blocks:
  assumes "ds \<noteq> []" and "length Ms = length ds"
    and "\<And>j. j < length ds \<Longrightarrow> map_of (ds ! j) k = Some (block_of (Ms ! j))"
    and "\<And>M. M \<in> set Ms \<Longrightarrow> is_matrix r M"
  shows "merge_key (map Dict ds) c k = Inr (block_of (merge_columns c Ms))"
proof -
  have Ms: "Ms \<noteq> []" using assms(1,2) by auto
  have "map (\<lambda>v. case getitem_key v k of Inr y \<Rightarrow> y) (map Dict ds) = map block_of Ms"
    using assms(2,3) by (intro nth_equalityI) (simp_all add: getitem_key_def)
  moreover have "getitem_key v k = Inr (case getitem_key v k of Inr y \<Rightarrow> y)"
    if "v \<in> set (map Dict ds)" for v
  proof -
    from that obtain j where "j < length ds" "v = Dict (ds ! j)"
      by (auto simp: in_set_conv_nth)
    then show ?thesis using assms(3) by (simp add: getitem_key_def)
  qed
  ultimately have get: "map_err (\<lambda>v_i. getitem_key v_i k) (map Dict ds) = Inr (map block_of Ms)"
    using map_err_ok [of "map Dict ds" "\<lambda>v. getitem_key v k" "\<lambda>v. case getitem_key v k of Inr y \<Rightarrow> y"]
    by simp
  have hs: "hstack (map block_of (drop_cols c Ms)) = Inr (block_of (hcat (drop_cols c Ms)))"
  proof (rule hstack_blocks)
    show "drop_cols c Ms \<noteq> []" using Ms by (simp add: drop_cols_def)
    show "\<And>M. M \<in> set (drop_cols c Ms) \<Longrightarrow> is_matrix r M"
      using is_matrix_drop_cols [OF Ms assms(4)] .
  qed
  show ?thesis
    unfolding merge_key_def get
    using final_tuple_blocks [OF Ms assms(4), of c] hs
    by (simp add: merge_columns_def)
qed

lemma map_of_dict_set: "map_of (dict_set k v d) = (map_of d)(k \<mapsto> v)"
  by (induction d) (auto simp: fun_eq_iff)

lemma keys_dict_set: "fst ` set (dict_set k v d) = insert k (fst ` set d)"
  by (induction d) force+

lemma dict_loop_ok:
  assumes "\<And>k. k \<in> set keys \<Longrightarrow> merge_key vs c k = Inr (h k)"
  shows "\<exists>d. dict_loop vs c keys acc = Inr d
           \<and> set (map fst d) = set (map fst acc) \<union> set keys
           \<and> (\<forall>k\<in>set keys. map_of d k = Some (h k))
           \<and> (\<forall>k. k \<notin> set keys \<longrightarrow> map_of d k = map_of acc k)"
  using assms
proof (induction keys arbitrary: acc)
  case Nil
  then show ?case by simp
next
  case (Cons key keys)
  from Cons.IH [of "dict_set key (h key) acc"] Cons.prems
  obtain d where d: "dict_loop vs c keys (dict_set key (h key) acc) = Inr d"
      "set (map fst d) = set (map fst (dict_set key (h key) acc)) \<union> set keys"
      "\<forall>k\<in>set keys. map_of d k = Some (h k)"
      "\<forall>k. k \<notin> set keys \<longrightarrow> map_of d k = map_of (dict_set key (h key) acc) k"
    by auto
  have "dict_loop vs c (key # keys) acc = Inr d"
    using d(1) Cons.prems [of key] by simp
  moreover have "set (map fst d) = set (map fst acc) \<union> set (key # keys)"
    using d(2) by (simp add: keys_dict_set)
  moreover have "\<forall>k\<in>set (key # keys). map_of d k = Some (h k)"
    using d(3,4) by (auto simp: map_of_dict_set)
  moreover have "\<forall>k. k \<notin> set (key # keys) \<longrightarrow> map_of d k = map_of acc k"
    using d(4) by (auto simp: map_of_dict_set)
  ultimately show ?case by blast
qed

text \<open>
  Claim C9. For a non-empty list of dictionaries in which every key of the first
  dictionary is bound, in each dictionary, to a 2-D block, the blocks of one key having
  the same positive number of rows: the function returns one dictionary, its keys are
  exactly the keys of the first dictionary, and the value of each key is the
  column-dropping concatenation of the blocks of that key alone.
\<close>

theorem concatenate_dict_keys:
  fixes ds :: "(string \<times> 'a pyval) list list" and B :: "nat \<Rightarrow> string \<Rightarrow> 'a list list"
  assumes "ds \<noteq> []"
    and "\<forall>j<length ds. \<forall>k\<in>set (map fst (hd ds)).
           map_of (ds ! j) k = Some (block_of (B j k)) \<and> is_matrix (r k) (B j k)"
  shows "\<exists>d. concatenate_optimization_variables_dict (ArgList (map Dict ds)) continuous
               = Inr (RetList [d])
           \<and> set (map fst d) = set (map fst (hd ds))
           \<and> (\<forall>k\<in>set (map fst (hd ds)).
                 map_of d k = Some (block_of (merge_columns continuous
                                                (map (\<lambda>j. B j k) [0 ..< length ds]))))"
proof -
  obtain d0 rest where ds: "ds = d0 # rest" using assms(1) by (cases ds) auto
  let ?h = "\<lambda>k. block_of (merge_columns continuous (map (\<lambda>j. B j k) [0 ..< length ds]))"
  have mk: "merge_key (map Dict ds) continuous k = Inr (?h k)" if "k \<in> set (map fst (hd ds))" for k
  proof (rule merge_key_blocks [OF assms(1), where r = "r k"])
    show "length (map (\<lambda>j. B j k) [0 ..< length ds]) = length ds" by simp
    from assms(2) that
    have a: "\<forall>j<length ds. map_of (ds ! j) k = Some (block_of (B j k)) \<and> is_matrix (r k) (B j k)"
      by blast
    show "\<And>j. j < length ds \<Longrightarrow> map_of (ds ! j) k = Some (block_of (map (\<lambda>j. B j k) [0 ..< length ds] ! j))"
      using a by simp
    show "\<And>M. M \<in> set (map (\<lambda>j. B j k) [0 ..< length ds]) \<Longrightarrow> is_matrix (r k) M"
      using a by auto
  qed
  from dict_loop_ok [of "map fst (hd ds)" "map Dict ds" continuous ?h "[]", OF mk]
  obtain d where d: "dict_loop (map Dict ds) continuous (map fst (hd ds)) [] = Inr d"
     "set (map fst d) = set (map fst (hd ds))"
     "\<forall>k\<in>set (map fst (hd ds)). map_of d k = Some (?h k)"
    by auto
  have "concatenate_optimization_variables_dict (ArgList (map Dict ds)) continuous = Inr (RetList [d])"
    using d(1) by (simp add: concatenate_optimization_variables_dict_def ds)
  with d(2,3) show ?thesis by blast
qed


theorem concatenate_dict_keys_witness:
  "\<exists>d. concatenate_optimization_variables_dict
          (ArgList [Dict [(''q'', block_of [[1, 2], [3, 4::int]]), (''u'', block_of [[5], [6]])],
                    Dict [(''u'', block_of [[7, 8], [9, 10]]), (''q'', block_of [[11, 12], [13, 14]])]])
          True = Inr (RetList [d])
       \<and> set (map fst d) = {''q'', ''u''}
       \<and> map_of d ''q'' = Some (block_of [[1, 11, 12], [3, 13, 14]])
       \<and> map_of d ''u'' = Some (block_of [[7, 8], [9, 10]])"
  using concatenate_dict_keys [where continuous = True
      and ds = "[[(''q'', block_of [[1, 2], [3, 4::int]]), (''u'', block_of [[5], [6]])],
                 [(''u'', block_of [[7, 8], [9, 10]]), (''q'', block_of [[11, 12], [13, 14]])]]"
      and B = "\<lambda>j k. if j = 0 then (if k = ''q'' then [[1, 2], [3, 4]] else [[5], [6]])
                     else (if k = ''q'' then [[11, 12], [13, 14]] else [[7, 8], [9, 10]])"
      and r = "\<lambda>k. 2"]
  by (simp add: is_matrix_def merge_columns_def drop_cols_def hcat_def less_Suc_eq
        upt_rec [of 0] upt_rec [of 1] upt_rec [of 2])

text \<open>
  Claim C10. An argument that is not a list raises \<open>ValueError\<close>; a non-empty list whose
  first item is not a dictionary returns \<open>None\<close>, without an exception and without a
  merged dictionary; and when the first item is a dictionary and the function returns,
  it returns a list of exactly one dictionary.
\<close>

theorem concatenate_dict_returns:
  "concatenate_optimization_variables_dict ArgOther continuous
       = Inl (ValueError ''the input must be a list'')
   \<and> concatenate_optimization_variables_dict (ArgList (NotDict x # rest)) continuous = Inr RetNone
   \<and> (\<forall>ret. concatenate_optimization_variables_dict (ArgList (Dict d0 # rest')) continuous = Inr ret
         \<longrightarrow> (\<exists>d. ret = RetList [d]))"
  by (auto simp: concatenate_optimization_variables_dict_def
           split: dict_arg.splits list.splits item.splits sum.splits)

theorem concatenate_dict_returns_witness:
  "concatenate_optimization_variables_dict
      (ArgList [Dict [(''q'', block_of [[1, 2], [3, 4::int]])], Dict [(''q'', block_of [[5, 6], [7, 8]])]])
      True = Inr (RetList [[(''q'', block_of [[1, 5, 6], [3, 7, 8]])]])
   \<and> (\<exists>d. RetList [[(''q'', block_of [[1, 5, 6], [3, 7, 8::int]])]] = RetList [d])"
proof -
  have r: "concatenate_optimization_variables_dict
      (ArgList [Dict [(''q'', block_of [[1, 2], [3, 4::int]])], Dict [(''q'', block_of [[5, 6], [7, 8]])]])
      True = Inr (RetList [[(''q'', block_of [[1, 5, 6], [3, 7, 8]])]])"
    by code_simp
  with concatenate_dict_returns [where ?d0.0 = "[(''q'', block_of [[1, 2], [3, 4::int]])]"
      and rest' = "[Dict [(''q'', block_of [[5, 6], [7, 8]])]]" and continuous = True]
  show ?thesis by blast
qed

section \<open>Properties of concatenate_optimization_variables\<close>

declare concatenate_optimization_variables.simps [simp del]

lemma atleast_1d_vec [simp]: "atleast_1d (vec_of xs) = vec_of xs"
  by (simp add: atleast_1d_def vec_of_def)

lemma hstack_vecs:
  assumes "xss \<noteq> []"
  shows "hstack (map vec_of xss) = Inr (vec_of (concat xss))"
proof -
  have a: "map atleast_1d (map vec_of xss) = map vec_of xss" by simp
  have r: "list_all rect (map vec_of xss)" by (simp add: list_all_iff)
  have n: "list_all (\<lambda>a. ndim a = 1) (map vec_of xss)" by (simp add: list_all_iff)
  have h: "ndim (hd (map vec_of xss)) = 1" using assms by (simp add: hd_map)
  have "concat (map elems (map vec_of xss)) = map Num (concat xss)"
    by (simp add: map_concat comp_def)
  then have e: "Arr (concat (map elems (map vec_of xss))) = vec_of (concat xss)"
    by (simp add: vec_of_def)
  show ?thesis unfolding hstack_def a Let_def using assms r n h e by simp
qed

lemma drop_last_vec: "drop_last (vec_of xs) = Inr (vec_of (butlast xs))"
  by (simp add: drop_last_def vec_of_def map_butlast)

lemma len_shape_vec [simp]: "len_shape (vec_of xs) = Inr 1"
  using ndim_vec_of [of xs] by (simp add: len_shape_def vec_of_def)

lemma final_tuple_rows:
  assumes "elems v = map vec_of fs" and "fs \<noteq> []"
  shows "final_tuple_of v c = Inr (map vec_of (if c then map butlast (butlast fs) @ [last fs] else fs))"
proof -
  let ?g = "\<lambda>y. case len_shape y of Inl e \<Rightarrow> Inl e
               | Inr k \<Rightarrow> if k = 2 then drop_last_col y else drop_last y"
  let ?g' = "\<lambda>y. case drop_last y of Inr z \<Rightarrow> z"
  have g: "?g y = Inr (?g' y)" if "y \<in> set (map vec_of fs)" for y
    using that by (auto simp: drop_last_vec)
  have ne: "map vec_of fs \<noteq> []" using assms(2) by simp
  have "map ?g' (map vec_of (butlast fs)) = map vec_of (map butlast (butlast fs))"
    by (simp add: drop_last_vec)
  then have "map ?g' (butlast (map vec_of fs)) = map vec_of (map butlast (butlast fs))"
    by (simp only: map_butlast)
  moreover have "last (map vec_of fs) = vec_of (last fs)"
    using assms(2) by (simp add: last_map)
  ultimately show ?thesis
    unfolding final_tuple_of_def assms(1)
    using slices [of "map vec_of fs" ?g ?g' c, OF g ne]
    by simp
qed

lemma cov_rows:
  assumes "v = Arr (map vec_of fs) \<or> v = PyList (map vec_of fs)"
  shows "concatenate_optimization_variables (Suc f) v cp ci mp =
           (if fs = [] \<or> hd fs = [] then Some (Inl IndexError)
            else Some (Inr (vec_of (join_1d cp fs))))"
proof (cases fs)
  case Nil
  then show ?thesis using assms
    by (auto simp: getitem0_def concatenate_optimization_variables.simps)
next
  case (Cons row0 rest)
  then have g0: "getitem0 v = Inr (vec_of row0)"
    using assms by (auto simp: getitem0_def)
  show ?thesis
  proof (cases row0)
    case Nil
    then have "getitem0 (vec_of row0) = Inl IndexError"
      by (simp add: getitem0_def vec_of_def)
    then show ?thesis using g0 Nil \<open>fs = row0 # rest\<close>
      by (simp add: concatenate_optimization_variables.simps)
  next
    case (Cons x xs)
    then have g00: "getitem0 (vec_of row0) = Inr (Num x)"
      by (simp add: getitem0_def vec_of_def)
    have el: "elems v = map vec_of fs" using assms by (auto simp: elems_def)
    have fs: "fs \<noteq> []" using \<open>fs = row0 # rest\<close> by simp
    have hs: "hstack (map vec_of (if cp then map butlast (butlast fs) @ [last fs] else fs))
          = Inr (vec_of (join_1d cp fs))"
      using hstack_vecs [of "if cp then map butlast (butlast fs) @ [last fs] else fs"] fs
      by (simp add: join_1d_def)
    show ?thesis
      using g0 g00 final_tuple_rows [OF el fs, of cp] hs \<open>fs = row0 # rest\<close> Cons
      by (simp add: is_ndarray_def concatenate_optimization_variables.simps)
  qed
qed

lemma collect_same_error:
  assumes "\<And>x. x \<in> set xs \<Longrightarrow> f x = (if bad x then Some (Inl e) else Some (Inr (g x)))"
  shows "collect f xs = (if \<exists>x\<in>set xs. bad x then Some (Inl e) else Some (Inr (map g xs)))"
  using assms by (induction xs) auto

lemma join_1d_nonempty:
  assumes "xss \<noteq> []" and "last xss \<noteq> []"
  shows "join_1d c xss \<noteq> []"
  using assms by (cases xss rule: rev_cases) (auto simp: join_1d_def)

lemma is_matrix_last: "is_matrix r M \<Longrightarrow> hd M \<noteq> [] \<Longrightarrow> M \<noteq> [] \<and> last M \<noteq> []"
proof -
  assume m: "is_matrix r M" and h: "hd M \<noteq> []"
  then have ne: "M \<noteq> []" by (auto simp: is_matrix_def)
  then have "last M \<in> set M" by simp
  then have "length (last M) = length (hd M)" using m by (simp add: is_matrix_def list_all_iff)
  with h ne show ?thesis by auto
qed

lemma cov_blocks:
  assumes "Ms \<noteq> []" and "\<And>M. M \<in> set Ms \<Longrightarrow> is_matrix r M"
  shows "concatenate_optimization_variables (Suc (Suc f)) (PyList (map block_of Ms)) cp ci True =
           (if \<exists>M\<in>set Ms. hd M = [] then Some (Inl IndexError)
            else Some (Inr (vec_of (join_1d cp (map (join_1d ci) Ms)))))"
proof -
  obtain M0 rest where Ms: "Ms = M0 # rest" using assms(1) by (cases Ms) auto
  have M_ne: "M \<noteq> []" if "M \<in> set Ms" for M
    using assms(2) [OF that] by (auto simp: is_matrix_def)
  obtain row0 rows where M0: "M0 = row0 # rows" using M_ne [of M0] Ms by (cases M0) auto
  have g0: "getitem0 (PyList (map block_of Ms)) = Inr (block_of M0)"
    by (simp add: getitem0_def Ms)
  have ls: "len_shape (block_of M0) = Inr 2"
    using ndim_block_of [of M0] M0 by (simp add: len_shape_def block_of_def)
  have g00: "getitem0 (block_of M0) = Inr (vec_of row0)"
    by (simp add: getitem0_def block_of_def M0)
  have nd: "is_ndarray (vec_of row0)" by (simp add: is_ndarray_def vec_of_def)
  have el: "elems (PyList (map block_of Ms)) = map block_of Ms" by (simp add: elems_def)
  have each: "concatenate_optimization_variables (Suc f) y ci True True =
        (if hd (map (map (\<lambda>v. case v of Num x \<Rightarrow> x)) (map elems (elems y)) ) = [] then Some (Inl IndexError)
         else Some (Inr (vec_of (join_1d ci (map (map (\<lambda>v. case v of Num x \<Rightarrow> x)) (map elems (elems y)))))))"
    if "y \<in> set (map block_of Ms)" for y
  proof -
    from that obtain M where M: "M \<in> set Ms" "y = block_of M" by auto
    have un: "map (map (\<lambda>v. case v of Num x \<Rightarrow> x)) (map elems (elems (block_of M))) = M"
      by (simp add: comp_def map_idI)
    have "block_of M = Arr (map vec_of M) \<or> block_of M = PyList (map vec_of M)"
      by (simp add: block_of_def)
    from cov_rows [OF this, where f = f and cp = ci and ci = True and mp = True] M_ne [OF M(1)]
    show ?thesis unfolding M(2) un by (simp only: if_False simp_thms)
  qed
  have un: "map (map (\<lambda>v. case v of Num x \<Rightarrow> x)) (map elems (elems (block_of M))) = M" for M :: "'a list list"
    by (simp add: comp_def map_idI)
  have col: "collect (\<lambda>zi. concatenate_optimization_variables (Suc f) zi ci True True) (map block_of Ms)
      = (if \<exists>M\<in>set Ms. hd M = [] then Some (Inl IndexError)
         else Some (Inr (map vec_of (map (join_1d ci) Ms))))"
    using collect_same_error [of "map block_of Ms"
        "\<lambda>zi. concatenate_optimization_variables (Suc f) zi ci True True"
        "\<lambda>y. hd (map (map (\<lambda>v. case v of Num x \<Rightarrow> x)) (map elems (elems y))) = []" IndexError
        "\<lambda>y. vec_of (join_1d ci (map (map (\<lambda>v. case v of Num x \<Rightarrow> x)) (map elems (elems y))))", OF each]
    unfolding map_map comp_def set_map bex_simps un [unfolded map_map comp_def]
    by simp
  show ?thesis
  proof (cases "\<exists>M\<in>set Ms. hd M = []")
    case True
    then show ?thesis
      by (subst concatenate_optimization_variables.simps)
         (simp add: g0 ls g00 nd el col)
  next
    case False
    then have h0: "hd M0 \<noteq> []" using Ms by simp
    have "join_1d ci M0 \<noteq> []"
      using is_matrix_last [OF assms(2) [of M0] h0] Ms by (intro join_1d_nonempty) simp_all
    then have "concatenate_optimization_variables (Suc f) (PyList (map vec_of (map (join_1d ci) Ms))) cp True True
       = Some (Inr (vec_of (join_1d cp (map (join_1d ci) Ms))))"
      using cov_rows [where v = "PyList (map vec_of (map (join_1d ci) Ms))" and fs = "map (join_1d ci) Ms"
          and f = f and cp = cp and ci = True and mp = True]
      by (simp add: Ms)
    then show ?thesis using False
      by (subst concatenate_optimization_variables.simps)
         (simp add: g0 ls g00 nd el col)
  qed
qed

lemma butlast_join:
  assumes "xs \<noteq> []" and "last xs \<noteq> []"
  shows "butlast (join_1d True xs) = concat (map butlast xs)"
  using assms by (cases xs rule: rev_cases) (simp_all add: join_1d_def butlast_append)

lemma join_join:
  assumes "xss \<noteq> []" and "\<And>xs. xs \<in> set xss \<Longrightarrow> xs \<noteq> [] \<and> last xs \<noteq> []"
  shows "join_1d c (map (join_1d c) xss) = join_1d c (concat xss)"
proof (cases c)
  case False
  have "concat (map (join_1d False) xss) = concat (concat xss)"
    by (induction xss) (simp_all add: join_1d_def)
  with False show ?thesis by (simp add: join_1d_def)
next
  case True
  obtain yss ys where x: "xss = yss @ [ys]" using assms(1) by (cases xss rule: rev_cases) auto
  obtain zs z where y: "ys = zs @ [z]" using assms(2) [of ys] x by (cases ys rule: rev_cases) auto
  have jl: "join_1d True (as @ [a]) = concat (map butlast as) @ a" for as :: "'b list list" and a
    by (simp add: join_1d_def)
  have mb: "map butlast (map (join_1d True) yss) = map (\<lambda>xs. concat (map butlast xs)) yss"
    using assms(2) x by (auto simp: butlast_join)
  have "join_1d True (map (join_1d True) xss)
      = concat (map butlast (map (join_1d True) yss)) @ join_1d True ys"
    unfolding x using jl [of "map (join_1d True) yss" "join_1d True ys"] by simp
  also have "\<dots> = concat (map (\<lambda>xs. concat (map butlast xs)) yss) @ concat (map butlast zs) @ z"
    unfolding mb y jl ..
  finally have l: "join_1d True (map (join_1d True) xss)
      = concat (map (\<lambda>xs. concat (map butlast xs)) yss) @ concat (map butlast zs) @ z" .
  have "concat xss = (concat yss @ zs) @ [z]" by (simp add: x y)
  then have "join_1d True (concat xss) = concat (map butlast (concat yss @ zs)) @ z"
    by (simp only: jl)
  moreover have "concat (map (\<lambda>xs. concat (map butlast xs)) yss) = concat (concat (map (map butlast) yss))"
    by (induction yss) simp_all
  ultimately show ?thesis using l True by (simp add: map_concat comp_def)
qed

text \<open>
  Merging the blocks of each phase and then the per-phase results, and merging the
  flattened list of all blocks, both give the 1-D array that joins the flattened
  blocks (an \<open>IndexError\<close> when a block has no column).
\<close>

lemma cov_phases:
  fixes phases :: "'a list list list list"
  assumes "phases \<noteq> []" and "\<forall>p\<in>set phases. p \<noteq> [] \<and> (\<forall>M\<in>set p. is_matrix r M)"
  shows "(case collect (\<lambda>p. concatenate_optimization_variables (Suc (Suc f1))
                               (PyList (map block_of p)) c ci True) phases of
            None \<Rightarrow> None
          | Some (Inl e) \<Rightarrow> Some (Inl e)
          | Some (Inr per_phase) \<Rightarrow>
              concatenate_optimization_variables (Suc f2) (PyList per_phase) c ci' True)
         = (if \<exists>p\<in>set phases. \<exists>M\<in>set p. hd M = [] then Some (Inl IndexError)
            else Some (Inr (vec_of (join_1d c (map (join_1d ci) (concat phases))))))"
    and "concatenate_optimization_variables (Suc (Suc f3))
             (PyList (map block_of (concat phases))) c ci True
         = (if \<exists>p\<in>set phases. \<exists>M\<in>set p. hd M = [] then Some (Inl IndexError)
            else Some (Inr (vec_of (join_1d c (map (join_1d ci) (concat phases))))))"
proof -
  let ?bad = "\<exists>p\<in>set phases. \<exists>M\<in>set p. hd M = []"
  let ?out = "if ?bad then Some (Inl IndexError)
              else Some (Inr (vec_of (join_1d c (map (join_1d ci) (concat phases)))))"
  have pne: "p \<noteq> []" and pm: "\<And>M. M \<in> set p \<Longrightarrow> is_matrix r M" if "p \<in> set phases" for p
    using assms(2) that by auto
  have cne: "concat phases \<noteq> []"
    using assms(1) pne by (cases phases) auto
  have rhs: "concatenate_optimization_variables (Suc (Suc f3))
             (PyList (map block_of (concat phases))) c ci True = ?out"
  proof -
    have "\<And>M. M \<in> set (concat phases) \<Longrightarrow> is_matrix r M" using pm by auto
    then have "concatenate_optimization_variables (Suc (Suc f3))
             (PyList (map block_of (concat phases))) c ci True
        = (if \<exists>M\<in>set (concat phases). hd M = [] then Some (Inl IndexError)
           else Some (Inr (vec_of (join_1d c (map (join_1d ci) (concat phases))))))"
      by (rule cov_blocks [OF cne])
    moreover have "(\<exists>M\<in>set (concat phases). hd M = []) = ?bad" by auto
    ultimately show ?thesis by simp
  qed
  have each: "concatenate_optimization_variables (Suc (Suc f1)) (PyList (map block_of p)) c ci True
        = (if \<exists>M\<in>set p. hd M = [] then Some (Inl IndexError)
           else Some (Inr (vec_of (join_1d c (map (join_1d ci) p)))))" if "p \<in> set phases" for p
    using cov_blocks [OF pne [OF that], of r f1 c ci] pm [OF that] by blast
  have col: "collect (\<lambda>p. concatenate_optimization_variables (Suc (Suc f1))
                               (PyList (map block_of p)) c ci True) phases
      = (if ?bad then Some (Inl IndexError)
         else Some (Inr (map (\<lambda>p. vec_of (join_1d c (map (join_1d ci) p))) phases)))"
    by (rule collect_same_error [where bad = "\<lambda>p. \<exists>M\<in>set p. hd M = []", OF each])
  have lhs: "(case collect (\<lambda>p. concatenate_optimization_variables (Suc (Suc f1))
                               (PyList (map block_of p)) c ci True) phases of
            None \<Rightarrow> None
          | Some (Inl e) \<Rightarrow> Some (Inl e)
          | Some (Inr per_phase) \<Rightarrow>
              concatenate_optimization_variables (Suc f2) (PyList per_phase) c ci' True) = ?out"
  proof (cases ?bad)
    case True
    then show ?thesis unfolding col by (simp)
  next
    case False
    let ?xss = "map (map (join_1d ci)) phases"
    have good: "xs \<noteq> [] \<and> last xs \<noteq> []" if "xs \<in> set ?xss" for xs
    proof -
      from that obtain p where p: "p \<in> set phases" "xs = map (join_1d ci) p" by auto
      have lp: "last p \<in> set p" using pne [OF p(1)] by simp
      then have "hd (last p) \<noteq> []" using False p(1) by blast
      then have "join_1d ci (last p) \<noteq> []"
        using is_matrix_last [OF pm [OF p(1) lp]] by (intro join_1d_nonempty) simp_all
      then show ?thesis using pne [OF p(1)] by (simp add: p(2) last_map)
    qed
    have jj: "join_1d c (map (join_1d c) ?xss) = join_1d c (concat ?xss)"
      using assms(1) good by (intro join_join) simp_all
    let ?gs = "map (\<lambda>p. join_1d c (map (join_1d ci) p)) phases"
    have gs: "?gs \<noteq> []" "hd ?gs \<noteq> []"
    proof -
      show "?gs \<noteq> []" using assms(1) by simp
      have "hd phases \<in> set phases" using assms(1) by simp
      then have "map (join_1d ci) (hd phases) \<in> set ?xss" by simp
      from good [OF this] have "join_1d c (map (join_1d ci) (hd phases)) \<noteq> []"
        by (intro join_1d_nonempty) simp_all
      then show "hd ?gs \<noteq> []" using assms(1) by (simp add: hd_map)
    qed
    have "concatenate_optimization_variables (Suc f2) (PyList (map vec_of ?gs)) c ci' True
        = Some (Inr (vec_of (join_1d c ?gs)))"
      using cov_rows [where v = "PyList (map vec_of ?gs)" and fs = ?gs and f = f2 and cp = c
          and ci = ci' and mp = True] gs
      by (simp)
    moreover have "join_1d c ?gs = join_1d c (map (join_1d ci) (concat phases))"
      using jj by (simp add: map_concat comp_def)
    ultimately show ?thesis
      unfolding col using False
      by (simp add: comp_def)
  qed
  show "(case collect (\<lambda>p. concatenate_optimization_variables (Suc (Suc f1))
                               (PyList (map block_of p)) c ci True) phases of
            None \<Rightarrow> None
          | Some (Inl e) \<Rightarrow> Some (Inl e)
          | Some (Inr per_phase) \<Rightarrow>
              concatenate_optimization_variables (Suc f2) (PyList per_phase) c ci' True)
         = (if \<exists>p\<in>set phases. \<exists>M\<in>set p. hd M = [] then Some (Inl IndexError)
            else Some (Inr (vec_of (join_1d c (map (join_1d ci) (concat phases))))))"
    by (rule lhs)
  show "concatenate_optimization_variables (Suc (Suc f3))
             (PyList (map block_of (concat phases))) c ci True
         = (if \<exists>p\<in>set phases. \<exists>M\<in>set p. hd M = [] then Some (Inl IndexError)
            else Some (Inr (vec_of (join_1d c (map (join_1d ci) (concat phases))))))"
    by (rule rhs)
qed


text \<open>
  Claim C2. On two 2-D blocks of two rows and two columns the function does not drop the
  last column of the first block and join the columns, which would give the two rows
  \<open>[1, 5, 6]\<close> and \<open>[3, 7, 8]\<close>: a row of a block is itself an array, so the function
  takes each block for a sequence to merge, joins its rows into a 1-D array after
  dropping the last item of every row but the last, and merges these 1-D arrays.
  Lemma \<open>cov_blocks\<close> gives the result for any list of 2-D blocks.
\<close>

theorem concatenate_blocks_flattened:
  "concatenate_optimization_variables 2
      (PyList [block_of [[1, 2], [3, 4]], block_of [[5, 6], [7, 8::int]]]) True True True
     = Some (Inr (vec_of [1, 3, 5, 7, 8]))
   \<and> merge_columns True [[[1, 2], [3, 4]], [[5, 6], [7, 8::int]]] = [[1, 5, 6], [3, 7, 8]]"
  by code_simp

section \<open>Properties of the configuration functions\<close>

lemma map_err_length: "map_err f xs = Inr ys \<Longrightarrow> length ys = length xs"
  by (induction xs arbitrary: ys) (auto split: sum.splits)

lemma reduced_symbols_length:
  "reduced_symbols p s names m = Inr xs \<Longrightarrow> length xs = length (map_idx m)"
  unfolding reduced_symbols_def by (rule map_err_length)

lemma full_symbols_length:
  "full_symbols p names m = Inr xs \<Longrightarrow> length xs = length (map_idx m)"
  unfolding full_symbols_def using map_err_length by fastforce

lemma column_symbols_length:
  "column_symbols p names m n = Inr cols \<Longrightarrow> col \<in> set cols \<Longrightarrow> length col = length (map_idx m)"
  unfolding column_symbols_def
  by (auto split: if_splits sum.splits dest!: map_err_length)

lemma configure_q_sizes:
  assumes "configure_q nlp0 = Inr c"
  shows "\<exists>m. mapping (cfg_nlp c) ''q'' = Some m
           \<and> length (full c) = length (map_idx (to_second m))
           \<and> reduced c \<noteq> [] \<and> (\<forall>col\<in>set (reduced c). length col = length (map_idx (to_first m)))"
  using assms unfolding configure_q_def Let_def
  by (auto split: sum.splits if_splits dest: reduced_symbols_length full_symbols_length)

lemma configure_qdot_sizes:
  assumes "configure_qdot nlp0 = Inr c"
  shows "\<exists>m. mapping (cfg_nlp c) ''qdot'' = Some m
           \<and> length (full c) = length (map_idx (to_second m))
           \<and> reduced c \<noteq> [] \<and> (\<forall>col\<in>set (reduced c). length col = length (map_idx (to_first m)))"
  using assms unfolding configure_qdot_def Let_def
  by (auto split: sum.splits if_splits dest: reduced_symbols_length full_symbols_length)

lemma configure_tau_sizes:
  assumes "configure_tau nlp0 = Inr c"
  shows "\<exists>m. mapping (cfg_nlp c) ''tau'' = Some m
           \<and> length (full c) = length (map_idx (to_second m))
           \<and> (\<forall>col\<in>set (reduced c). length col = length (map_idx (to_first m)))"
  using assms unfolding configure_tau_def Let_def
  by (auto split: sum.splits if_splits dest: column_symbols_length full_symbols_length)

lemma configure_taudot_sizes:
  assumes "configure_taudot nlp0 = Inr c"
  shows "\<exists>m mq. mapping (cfg_nlp c) ''taudot'' = Some m \<and> mapping (cfg_nlp c) ''q'' = Some mq
           \<and> length (full c) = length (map_idx (to_second mq))
           \<and> (\<forall>col\<in>set (reduced c). length col = length (map_idx (to_first m)))"
  using assms unfolding configure_taudot_def Let_def
  by (auto split: sum.splits if_splits option.splits
           dest: column_symbols_length full_symbols_length)

text \<open>
  Claim C5. For the coordinates, the velocities and the forces the three lemmas above
  give the sizes the claim states. For the force derivatives the full placeholder
  follows the mapping of \<open>"q"\<close>: in a phase whose mapping of \<open>"q"\<close> has three entries and
  whose mapping of \<open>"taudot"\<close> has two, \<open>configure_taudot\<close> builds a full placeholder of
  three symbols, while the reduced one has two.
\<close>

theorem configure_taudot_full_size:
  "\<exists>c. configure_taudot example_nlp = Inr c
      \<and> length (full c) = 3
      \<and> map length (reduced c) = [2]
      \<and> map_option (\<lambda>m. length (map_idx (to_second m))) (mapping (cfg_nlp c) ''taudot'') = Some 2
      \<and> map_option (\<lambda>m. length (map_idx (to_first m))) (mapping (cfg_nlp c) ''taudot'') = Some 2"
  by (simp add: configure_taudot_def example_nlp_def identity_bimapping_def Let_def
        column_symbols_def full_symbols_def reduced_symbols_def py_index_def ControlType_value_def
        upt_rec [of 0] upt_rec [of 1] upt_rec [of 2] upt_rec [of 3] numeral_2_eq_2 numeral_3_eq_3)

lemma vertcat_rows: "vertcat ds = Inr d \<Longrightarrow> size1 d = sum_list (map size1 ds)"
proof -
  assume a: "vertcat ds = Inr d"
  have "sum_list (map size1 (filter (\<lambda>x. \<not> (size1 x = 0 \<and> size2 x = 0)) ds)) = sum_list (map size1 ds)"
    by (induction ds) auto
  then show ?thesis using a by (auto simp: vertcat_def Let_def split: if_splits)
qed

text \<open>
  Claim C4, as amended. \<open>configure_dynamics_function\<close> compares no widths: whenever the
  derivative function returns an expression, or a sequence that the engine stacks, the
  phase gets a compiled function whose one output \<open>xdot\<close> is that expression as it is,
  of the sum of the rows for a sequence, whether or not this is the width of the
  states.
\<close>

theorem configure_dynamics_function_width:
  assumes "dyn_func (MX_sym ''x'' (states_n nlp0) 1) (MX_sym ''u'' (controls_n nlp0) 1)
             (MX_sym ''p'' (parameters_in_list_n ocp0) 1)
             (nlp0\<lparr>parameters_n := parameters_in_list_n ocp0\<rparr>) = Inr r"
    and "r = Expr d \<or> (r = Seq ds \<and> vertcat ds = Inr d)"
  shows "\<exists>nlp' f. configure_dynamics_function ocp0 nlp0 dyn_func = Inr nlp'
           \<and> dynamics_func nlp' = Some f
           \<and> f_out f = [d] \<and> name_out f = [''xdot'']
           \<and> (r = Seq ds \<longrightarrow> size1 d = sum_list (map size1 ds))"
  using assms
  by (auto simp: configure_dynamics_function_def Let_def Function_def expand_def dest: vertcat_rows)

theorem configure_dynamics_function_width_witness:
  "\<exists>nlp' f. configure_dynamics_function example_ocp example_nlp dyn_three_rows = Inr nlp'
           \<and> dynamics_func nlp' = Some f
           \<and> f_out f = [MX ''f(x, u, p)'' 3 1] \<and> name_out f = [''xdot'']"
proof -
  have a: "dyn_three_rows (MX_sym ''x'' (states_n example_nlp) 1) (MX_sym ''u'' (controls_n example_nlp) 1)
             (MX_sym ''p'' (parameters_in_list_n example_ocp) 1)
             (example_nlp\<lparr>parameters_n := parameters_in_list_n example_ocp\<rparr>)
           = Inr (Expr (MX ''f(x, u, p)'' 3 1))"
    by (simp add: dyn_three_rows_def)
  from configure_dynamics_function_width [where dyn_func = dyn_three_rows and ?nlp0.0 = example_nlp
      and ?ocp0.0 = example_ocp and r = "Expr (MX ''f(x, u, p)'' 3 1)"
      and d = "MX ''f(x, u, p)'' 3 1" and ds = "[]"] a
  show ?thesis by simp
qed

text \<open>
  Claim C4 as stated fails: in a phase whose states have width 2, a derivative function
  that returns three rows is compiled without an error, into a function of three
  output rows.
\<close>

theorem configure_dynamics_function_no_check:
  "states_n example_nlp = 2
   \<and> \<not> isl (configure_dynamics_function example_ocp example_nlp dyn_three_rows)
   \<and> map size1 (f_out (the (dynamics_func
         (projr (configure_dynamics_function example_ocp example_nlp dyn_three_rows))))) = [3]"
  by (simp add: configure_dynamics_function_def example_nlp_def example_ocp_def dyn_three_rows_def
        Let_def Function_def expand_def MX_sym_def)

end
